theory Spec2Isabelle
  imports Main "HOL-Library.Word" "HOL-Library.Sublist" "HOL-Library.AList"
begin

section \<open>JavaScript strings\<close>

text \<open>
  A JavaScript string is a sequence of UTF-16 code units; \<open>length\<close>, \<open>slice\<close>,
  \<open>lastIndexOf\<close> and \<open>trim\<close> all count and compare code units. \<open>str\<close> writes an
  ASCII literal as such a sequence.
\<close>

type_synonym jsstring = "16 word list"

definition str :: "string \<Rightarrow> jsstring" where
  "str s = map of_char s"

text \<open>
  \<open>String.prototype.trim\<close> removes the ECMAScript WhiteSpace and LineTerminator code
  points from both ends: TAB, VT, FF, SP, NBSP, ZWNBSP, the Unicode space separators, LF, CR,
  LS and PS.
\<close>

definition isWhiteSpace :: "16 word \<Rightarrow> bool" where
  "isWhiteSpace c \<longleftrightarrow>
     c \<in> {0x09, 0x0A, 0x0B, 0x0C, 0x0D, 0x20, 0xA0, 0x1680, 0x2028, 0x2029, 0x202F, 0x205F,
          0x3000, 0xFEFF}
     \<or> (0x2000 \<le> c \<and> c \<le> 0x200A)"

definition trim :: "jsstring \<Rightarrow> jsstring" where
  "trim s = rev (dropWhile isWhiteSpace (rev (dropWhile isWhiteSpace s)))"

text \<open>
  \<open>s.slice(0, e)\<close>: a negative end counts from the end of the string, and both bounds are
  clamped to the string.
\<close>

definition slice0 :: "jsstring \<Rightarrow> int \<Rightarrow> jsstring" where
  "slice0 s e = (if e < 0 then take (nat (int (length s) + e)) s else take (nat e) s)"

text \<open>
  \<open>s.lastIndexOf(pat)\<close> tries the start positions from \<open>length s - length pat\<close> down to
  \<open>0\<close> and returns the first that matches, or \<open>-1\<close>.
\<close>

fun lastIndexOf_from :: "jsstring \<Rightarrow> jsstring \<Rightarrow> nat \<Rightarrow> int" where
  "lastIndexOf_from s pat 0 = (if prefix pat s then 0 else - 1)"
| "lastIndexOf_from s pat (Suc k) =
     (if prefix pat (drop (Suc k) s) then int (Suc k) else lastIndexOf_from s pat k)"

definition lastIndexOf :: "jsstring \<Rightarrow> jsstring \<Rightarrow> int" where
  "lastIndexOf s pat =
     (if length pat \<le> length s then lastIndexOf_from s pat (length s - length pat) else - 1)"

fun join :: "jsstring \<Rightarrow> jsstring list \<Rightarrow> jsstring" where
  "join sep [] = []"
| "join sep [l] = l"
| "join sep (l # ls) = l @ sep @ join sep ls"

fun split_on :: "16 word \<Rightarrow> jsstring \<Rightarrow> jsstring list" where
  "split_on c [] = [[]]"
| "split_on c (x # xs) =
     (if x = c then [] # split_on c xs
      else (case split_on c xs of
              [] \<Rightarrow> [[x]]
            | l # ls \<Rightarrow> (x # l) # ls))"

text \<open>
  \<open>s.replace(/c{n,}/g, rep)\<close> for a single character \<open>c\<close>: the regular expression
  matches greedily at the first character of every maximal run of at least \<open>n\<close> copies of
  \<open>c\<close>; shorter runs are left as they are.
\<close>

function collapse_runs :: "16 word \<Rightarrow> nat \<Rightarrow> jsstring \<Rightarrow> jsstring \<Rightarrow> jsstring" where
  "collapse_runs c n rep [] = []"
| "collapse_runs c n rep (x # xs) =
     (if x = c
      then (if n \<le> Suc (length (takeWhile (\<lambda>y. y = c) xs)) then rep
            else x # takeWhile (\<lambda>y. y = c) xs)
           @ collapse_runs c n rep (dropWhile (\<lambda>y. y = c) xs)
      else x # collapse_runs c n rep xs)"
  by pat_completeness auto
termination
  by (relation "measure (\<lambda>(c, n, rep, s). length s)")
     (auto simp: less_Suc_eq_le length_dropWhile_le)


section \<open>Double-precision products\<close>

text \<open>
  \<open>truncateAtBoundary\<close> compares an integer position with \<open>maxChars * 0.7\<close> and
  \<open>maxChars * 0.8\<close>, products of IEEE-754 doubles. The double nearest to \<open>0.7\<close> is
  \<open>D0_7 / 2^53\<close> and the one nearest to \<open>0.8\<close> is \<open>D0_8 / 2^53\<close>. For an integer
  \<open>m\<close>, \<open>times_double m c\<close> is \<open>2^53\<close> times the double \<open>m * (c / 2^53)\<close>: the exact
  product rounded to 53 significant bits, ties to even. \<open>gt_double n x\<close> is the
  comparison \<open>n > x / 2^53\<close>.
\<close>

function bit_length :: "int \<Rightarrow> nat" where
  "bit_length n = (if n \<le> 0 then 0 else Suc (bit_length (n div 2)))"
  by pat_completeness auto
termination
  by (relation "measure nat") auto

declare bit_length.simps [simp del]

definition round53 :: "int \<Rightarrow> int" where
  "round53 N =
     (let s = bit_length N - 53; q = N div 2 ^ s; r = N mod 2 ^ s
      in if s = 0 then N
         else if 2 ^ s < 2 * r \<or> (2 * r = 2 ^ s \<and> odd q) then (q + 1) * 2 ^ s
         else q * 2 ^ s)"

definition D0_7 :: int where
  "D0_7 = 0x16666666666666"

definition D0_8 :: int where
  "D0_8 = 0x1999999999999A"

definition times_double :: "int \<Rightarrow> int \<Rightarrow> int" where
  "times_double m c = (if m < 0 then - round53 (- m * c) else round53 (m * c))"

definition gt_double :: "int \<Rightarrow> int \<Rightarrow> bool" where
  "gt_double n x \<longleftrightarrow> x < n * 2 ^ 53"


section \<open>Content utilities (\<open>utils/content.ts\<close>)\<close>

subsection \<open>\<open>truncateAtBoundary\<close>\<close>

definition MARKER :: jsstring where
  "MARKER = [0x0A, 0x0A] @ str ''[Content truncated...]''"

definition ELLIPSIS_MARKER :: jsstring where
  "ELLIPSIS_MARKER = str ''...'' @ [0x0A, 0x0A] @ str ''[Content truncated...]''"

definition truncateAtBoundary :: "jsstring \<Rightarrow> int \<Rightarrow> jsstring" where
  "truncateAtBoundary text maxChars =
     (if int (length text) \<le> maxChars then text
      else
        let truncated = slice0 text maxChars;
            lastPara = lastIndexOf truncated [0x0A, 0x0A]
        in if gt_double lastPara (times_double maxChars D0_7)
           then trim (slice0 truncated lastPara) @ MARKER
           else
             let lastSentence =
                   max (max (lastIndexOf truncated (str ''. ''))
                            (lastIndexOf truncated (str ''! '')))
                       (lastIndexOf truncated (str ''? ''))
             in if gt_double lastSentence (times_double maxChars D0_7)
                then trim (slice0 truncated (lastSentence + 1)) @ MARKER
                else
                  let lastSpace = lastIndexOf truncated (str '' '')
                  in if gt_double lastSpace (times_double maxChars D0_8)
                     then trim (slice0 truncated lastSpace) @ ELLIPSIS_MARKER
                     else trim truncated @ ELLIPSIS_MARKER)"

subsection \<open>\<open>cleanWhitespace\<close>\<close>

definition cleanWhitespace :: "jsstring \<Rightarrow> jsstring" where
  "cleanWhitespace text =
     (let result = collapse_runs 0x0A 3 [0x0A, 0x0A] text;
          result = collapse_runs 0x20 2 [0x20] result;
          result = join [0x0A] (map trim (split_on 0x0A result))
      in trim result)"

subsection \<open>The HTML libraries\<close>

text \<open>
  The DOM (linkedom) and Readability are libraries outside the repository; what they return
  is a parameter of the model. A call either throws or returns. \<open>parseHTML\<close> gives the
  document, seen through \<open>querySelector\<close>; \<open>readability_text\<close> is
  \<open>new Readability(document.cloneNode(true)).parse()?.textContent\<close> of the parsed page;
  \<open>stripped_body_text\<close> is \<open>document.body?.textContent\<close> once \<open>fallbackExtract\<close> has removed
  the elements with a tag of \<open>REMOVE_TAGS\<close> or a class or id matching
  \<open>BOILERPLATE_PATTERNS\<close>.
\<close>

datatype 'a outcome = Throws | Returns 'a

record dom_element =
  textContent :: "jsstring option"
  getAttribute :: "jsstring \<Rightarrow> jsstring option"

type_synonym document = "jsstring \<Rightarrow> dom_element option"

record html_lib =
  parseHTML :: "jsstring \<Rightarrow> document outcome"
  readability_text :: "jsstring \<Rightarrow> jsstring option outcome"
  stripped_body_text :: "jsstring \<Rightarrow> jsstring option outcome"

subsection \<open>\<open>extractContent\<close> and \<open>fallbackExtract\<close>\<close>

definition fallbackExtract :: "html_lib \<Rightarrow> jsstring \<Rightarrow> int \<Rightarrow> jsstring" where
  "fallbackExtract lib html maxChars =
     (case stripped_body_text lib html of
        Throws \<Rightarrow> []
      | Returns body \<Rightarrow>
          let text = (case body of None \<Rightarrow> [] | Some t \<Rightarrow> t);
              cleaned = cleanWhitespace text
          in if maxChars < int (length cleaned) then truncateAtBoundary cleaned maxChars
             else cleaned)"

definition extractContent :: "html_lib \<Rightarrow> jsstring \<Rightarrow> int \<Rightarrow> jsstring" where
  "extractContent lib html maxChars =
     (if html = [] then []
      else case readability_text lib html of
             Returns (Some articleText) \<Rightarrow>
               if articleText \<noteq> []
               then let cleaned = cleanWhitespace articleText
                    in if maxChars < int (length cleaned)
                       then truncateAtBoundary cleaned maxChars
                       else cleaned
               else fallbackExtract lib html maxChars
           | Returns None \<Rightarrow> fallbackExtract lib html maxChars
           | Throws \<Rightarrow> fallbackExtract lib html maxChars)"

subsection \<open>\<open>extractTitle\<close>\<close>

text \<open>
  A value of type \<open>string | null\<close> is truthy when it is a non-empty string.
  \<open>el?.textContent?.trim()\<close> is \<open>map_option trim (Option.bind el textContent)\<close>.
\<close>

definition truthy :: "jsstring option \<Rightarrow> bool" where
  "truthy v \<longleftrightarrow> (case v of None \<Rightarrow> False | Some s \<Rightarrow> s \<noteq> [])"

definition OG_TITLE_SELECTOR :: jsstring where
  "OG_TITLE_SELECTOR = str ''meta[property='' @ [0x22] @ str ''og:title'' @ [0x22] @ str '']''"

definition extractTitle :: "html_lib \<Rightarrow> jsstring \<Rightarrow> jsstring option" where
  "extractTitle lib html =
     (case parseHTML lib html of
        Throws \<Rightarrow> None
      | Returns document \<Rightarrow>
          let titleEl = document (str ''title'')
          in if truthy (map_option trim (Option.bind titleEl textContent))
             then map_option trim (Option.bind titleEl textContent)
             else
               let h1 = document (str ''h1'')
               in if truthy (map_option trim (Option.bind h1 textContent))
                  then map_option trim (Option.bind h1 textContent)
                  else
                    let ogTitle = document OG_TITLE_SELECTOR
                    in (case ogTitle of
                          None \<Rightarrow> None
                        | Some el \<Rightarrow>
                            let content = getAttribute el (str ''content'')
                            in if truthy (map_option trim content) then map_option trim content
                               else None))"


section \<open>URL utilities (\<open>utils/url.ts\<close>)\<close>

text \<open>
  The WHATWG \<open>URL\<close> class, \<open>String.prototype.toLowerCase\<close> and the
  \<open>application/x-www-form-urlencoded\<close> serializer of \<open>URLSearchParams.toString\<close> belong
  to the platform and are parameters. \<open>new URL(url)\<close> throws or returns the parsed URL, of
  which the code reads \<open>protocol\<close>, \<open>hostname\<close>, \<open>pathname\<close> and the decoded
  \<open>searchParams\<close> pairs in order.
\<close>

definition TRACKING_PARAMS :: "jsstring set" where
  "TRACKING_PARAMS = set (map str
     [''utm_source'', ''utm_medium'', ''utm_campaign'', ''utm_term'', ''utm_content'', ''utm_id'',
      ''utm_source_platform'', ''utm_creative_format'', ''utm_marketing_tactic'',
      ''fbclid'', ''gclid'', ''gclsrc'', ''dclid'', ''gbraid'', ''wbraid'', ''msclkid'',
      ''twclid'', ''igshid'', ''mc_cid'', ''mc_eid'', ''ref'', ''ref_'', ''source'', ''src''])"

record parsed_url =
  protocol :: jsstring
  hostname :: jsstring
  pathname :: jsstring
  searchParams :: "(jsstring \<times> jsstring) list"

record url_lib =
  URL_parse :: "jsstring \<Rightarrow> parsed_url outcome"
  toLowerCase :: "jsstring \<Rightarrow> jsstring"
  urlencode :: "jsstring \<Rightarrow> jsstring"

text \<open>
  \<open>URLSearchParams.set(name, value)\<close>: if the list has pairs of that name, the first gets
  the value and the others are removed; otherwise the pair is appended.
\<close>

fun params_set ::
  "jsstring \<Rightarrow> jsstring \<Rightarrow> (jsstring \<times> jsstring) list \<Rightarrow> (jsstring \<times> jsstring) list" where
  "params_set name v [] = [(name, v)]"
| "params_set name v ((n, w) # ps) =
     (if n = name then (n, v) # filter (\<lambda>(n', _). n' \<noteq> name) ps
      else (n, w) # params_set name v ps)"

definition params_toString :: "url_lib \<Rightarrow> (jsstring \<times> jsstring) list \<Rightarrow> jsstring" where
  "params_toString lib ps =
     join (str ''&'') (map (\<lambda>(n, v). urlencode lib n @ str ''='' @ urlencode lib v) ps)"

text \<open>The loop over \<open>parsed.searchParams\<close>, with \<open>params\<close> as its state.\<close>

fun filter_params ::
  "url_lib \<Rightarrow> (jsstring \<times> jsstring) list \<Rightarrow> (jsstring \<times> jsstring) list
     \<Rightarrow> (jsstring \<times> jsstring) list" where
  "filter_params lib [] params = params"
| "filter_params lib ((key, v) # rest) params =
     (if toLowerCase lib key \<notin> TRACKING_PARAMS
      then filter_params lib rest (params_set key v params)
      else filter_params lib rest params)"

text \<open>\<open>pathname.replace(/\/+$/, "")\<close> removes the whole trailing run of slashes.\<close>

definition strip_trailing_slashes :: "jsstring \<Rightarrow> jsstring" where
  "strip_trailing_slashes p = rev (dropWhile (\<lambda>c. c = 0x2F) (rev p))"

text \<open>
  The body of \<open>normalizeUrl\<close> in its blocks: the host, the path, the filtered parameters
  with the query they serialize to, and the reconstruction.
\<close>

definition normalized_hostname :: "url_lib \<Rightarrow> parsed_url \<Rightarrow> jsstring" where
  "normalized_hostname lib parsed =
     (let hostname = toLowerCase lib (hostname parsed)
      in if prefix (str ''www.'') hostname then drop 4 hostname else hostname)"

definition normalized_pathname :: "parsed_url \<Rightarrow> jsstring" where
  "normalized_pathname parsed =
     (let pathname = pathname parsed
      in if pathname \<noteq> str ''/'' \<and> suffix (str ''/'') pathname
         then strip_trailing_slashes pathname else pathname)"

definition normalized_query :: "url_lib \<Rightarrow> parsed_url \<Rightarrow> jsstring" where
  "normalized_query lib parsed =
     (let params = filter_params lib (searchParams parsed) [];
          query = params_toString lib params
      in if query \<noteq> [] then str ''?'' @ query else [])"

definition normalizeUrl :: "url_lib \<Rightarrow> jsstring \<Rightarrow> jsstring" where
  "normalizeUrl lib url =
     (case URL_parse lib url of
        Throws \<Rightarrow> url
      | Returns parsed \<Rightarrow>
          protocol parsed @ str ''//'' @ normalized_hostname lib parsed
            @ normalized_pathname parsed @ normalized_query lib parsed)"

fun dedup_loop ::
  "url_lib \<Rightarrow> jsstring list \<Rightarrow> jsstring set \<times> jsstring list \<Rightarrow> jsstring set \<times> jsstring list" where
  "dedup_loop lib [] (seen, unique) = (seen, unique)"
| "dedup_loop lib (url # urls) (seen, unique) =
     (let normalized = normalizeUrl lib url
      in if normalized \<notin> seen
         then dedup_loop lib urls (insert normalized seen, unique @ [url])
         else dedup_loop lib urls (seen, unique))"

definition deduplicateUrls :: "url_lib \<Rightarrow> jsstring list \<Rightarrow> jsstring list" where
  "deduplicateUrls lib urls = snd (dedup_loop lib urls ({}, []))"


section \<open>Plain objects keyed by strings\<close>

text \<open>
  A \<open>Record<string, T>\<close> of the code is a plain object, created by \<open>{}\<close>. It is modelled
  by its own properties, an association list with distinct keys. \<open>Object.keys(obj)\<close> is
  \<open>map fst\<close>; the code uses the number of the keys and the theorems their set, not their
  order (JavaScript lists integer-like keys first). The prototype of a plain object is
  \<open>Object.prototype\<close>, whose properties are those named in \<open>OBJECT_PROTOTYPE_NAMES\<close>:
  methods, and the accessor \<open>__proto__\<close>.
\<close>

type_synonym 'v js_record = "(jsstring \<times> 'v) list"

definition OBJECT_PROTOTYPE_NAMES :: "jsstring set" where
  "OBJECT_PROTOTYPE_NAMES = set (map str
     [''constructor'', ''__defineGetter__'', ''__defineSetter__'', ''hasOwnProperty'',
      ''__lookupGetter__'', ''__lookupSetter__'', ''isPrototypeOf'', ''propertyIsEnumerable'',
      ''toString'', ''valueOf'', ''__proto__'', ''toLocaleString''])"

definition PROTO :: jsstring where
  "PROTO = str ''__proto__''"

text \<open>\<open>k in obj\<close>: an own property or one inherited from \<open>Object.prototype\<close>.\<close>

definition has_property :: "'v js_record \<Rightarrow> jsstring \<Rightarrow> bool" where
  "has_property obj k \<longleftrightarrow> k \<in> set (map fst obj) \<or> k \<in> OBJECT_PROTOTYPE_NAMES"

text \<open>
  \<open>obj[k] = v\<close> creates or updates the own property \<open>k\<close>, with one exception: when \<open>k\<close> is
  \<open>__proto__\<close> and the object has no own property of that name, the assignment runs the
  setter of \<open>Object.prototype\<close>, which ignores a string and installs an array as the
  prototype of the object; no own property is created either way. The prototype that an
  array assigned in this way becomes is not modelled: the code applies \<open>in\<close> and reads
  properties only on objects that are assigned strings.
\<close>

definition assign :: "jsstring \<Rightarrow> 'v \<Rightarrow> 'v js_record \<Rightarrow> 'v js_record" where
  "assign k v obj =
     (if k = PROTO \<and> k \<notin> set (map fst obj) then obj else AList.update k v obj)"

text \<open>
  What a property read of a record of strings can give: a string, or the value of a property
  of \<open>Object.prototype\<close> (a function, and for \<open>__proto__\<close> the object \<open>Object.prototype\<close>
  itself), which is truthy and is not a string.
\<close>

datatype js_value = JSString jsstring | Inherited jsstring

text \<open>
  \<open>obj[k] || ""\<close>: the own property if there is one (an empty string is falsy and gives
  \<open>""\<close>), else the inherited one, else \<open>undefined || ""\<close>.
\<close>

definition lookup_or_empty :: "jsstring js_record \<Rightarrow> jsstring \<Rightarrow> js_value" where
  "lookup_or_empty obj k =
     (case map_of obj k of
        Some v \<Rightarrow> if v \<noteq> [] then JSString v else JSString []
      | None \<Rightarrow> if k \<in> OBJECT_PROTOTYPE_NAMES then Inherited k else JSString [])"

text \<open>
  \<open>Object.fromEntries\<close> defines an own property for every entry, whatever its key, a later
  entry overwriting an earlier one with the same key.
\<close>

definition fromEntries :: "(jsstring \<times> 'v) list \<Rightarrow> 'v js_record" where
  "fromEntries entries = fold (\<lambda>(k, v). AList.update k v) entries []"

function decimal :: "nat \<Rightarrow> jsstring" where
  "decimal n = (if n < 10 then [of_nat (48 + n)] else decimal (n div 10) @ [of_nat (48 + n mod 10)])"
  by pat_completeness auto
termination
  by (relation "measure id") auto

declare decimal.simps [simp del]

definition show_int :: "int \<Rightarrow> jsstring" where
  "show_int i = (if i < 0 then str ''-'' @ decimal (nat (- i)) else decimal (nat i))"


section \<open>The fetch tool (\<open>tools/fetch.ts\<close>)\<close>

text \<open>
  The network is a parameter: \<open>fetch(url)\<close> settles with a response or rejects, and so does
  \<open>response.text()\<close>. The catch clause of \<open>fetchSinglePage\<close> tells an \<open>AbortError\<close> from
  any other thrown value, of which it keeps the message.
\<close>

datatype thrown = AbortError | OtherError jsstring

datatype 'a settled = Fulfilled 'a | Rejected thrown

record response =
  ok :: bool
  status :: int
  content_type :: "jsstring option"
  body_text :: "jsstring settled"

record page_result =
  content :: "jsstring option"
  title :: "jsstring option"
  error :: "jsstring option"

definition caught :: "thrown \<Rightarrow> int \<Rightarrow> page_result" where
  "caught e timeout =
     (case e of
        AbortError \<Rightarrow>
          \<lparr>content = None, title = None,
           error = Some (str ''Request timed out after '' @ show_int timeout @ str ''s'')\<rparr>
      | OtherError message \<Rightarrow> \<lparr>content = None, title = None, error = Some message\<rparr>)"

definition fetchSinglePage ::
  "html_lib \<Rightarrow> (jsstring \<Rightarrow> response settled) \<Rightarrow> jsstring \<Rightarrow> int \<Rightarrow> int \<Rightarrow> page_result" where
  "fetchSinglePage lib fetch url timeout maxChars =
     (case fetch url of
        Rejected e \<Rightarrow> caught e timeout
      | Fulfilled response \<Rightarrow>
          if \<not> ok response
          then \<lparr>content = None, title = None,
                error = Some (str ''HTTP '' @ show_int (status response))\<rparr>
          else
            let contentType = (case content_type response of None \<Rightarrow> [] | Some t \<Rightarrow> t)
            in if \<not> sublist (str ''text/html'') contentType
                  \<and> \<not> sublist (str ''application/xhtml'') contentType
               then \<lparr>content = None, title = None,
                     error = Some (str ''Non-HTML content type: '' @ contentType)\<rparr>
               else (case body_text response of
                       Rejected e \<Rightarrow> caught e timeout
                     | Fulfilled html \<Rightarrow>
                         \<lparr>content = Some (extractContent lib html maxChars),
                          title = extractTitle lib html, error = None\<rparr>))"

text \<open>\<open>if (v) obj[url] = v\<close>\<close>

definition set_if_truthy :: "jsstring \<Rightarrow> jsstring option \<Rightarrow> jsstring js_record \<Rightarrow> jsstring js_record" where
  "set_if_truthy url v obj =
     (case v of None \<Rightarrow> obj | Some s \<Rightarrow> if s \<noteq> [] then assign url s obj else obj)"

text \<open>The loop that organizes the results, with the three records as its state.\<close>

fun organize ::
  "(jsstring \<times> page_result) list
     \<Rightarrow> jsstring js_record \<times> jsstring js_record \<times> jsstring js_record
     \<Rightarrow> jsstring js_record \<times> jsstring js_record \<times> jsstring js_record" where
  "organize [] (contents, titles, errors) = (contents, titles, errors)"
| "organize ((url, result) # rest) (contents, titles, errors) =
     (if truthy (error result)
      then organize rest (contents, titles, set_if_truthy url (error result) errors)
      else organize rest
             (set_if_truthy url (content result) contents,
              set_if_truthy url (title result) titles, errors))"

record fetch_result =
  contents :: "jsstring js_record"
  titles :: "jsstring js_record"
  errors :: "jsstring js_record"
  successCount :: nat
  errorCount :: nat

text \<open>
  \<open>net i\<close> is the behaviour of the \<open>i\<close>-th call of \<open>fetch\<close>, the one \<open>urls.map\<close> makes
  for \<open>urls[i]\<close>; \<open>Promise.all\<close> keeps the results in the order of the URLs.
\<close>

definition fetchPages ::
  "html_lib \<Rightarrow> (nat \<Rightarrow> jsstring \<Rightarrow> response settled) \<Rightarrow> jsstring list \<Rightarrow> int \<Rightarrow> int \<Rightarrow> fetch_result" where
  "fetchPages lib net urls maxChars timeout =
     (if urls = []
      then \<lparr>contents = [], titles = [], errors = [], successCount = 0, errorCount = 0\<rparr>
      else
        let results = map (\<lambda>i. fetchSinglePage lib (net i) (urls ! i) timeout maxChars)
                        [0..<length urls]
        in case organize (zip urls results) ([], [], []) of
             (cs, ts, es) \<Rightarrow>
               \<lparr>contents = cs, titles = ts, errors = es,
                successCount = length (map fst cs),
                errorCount = length (map fst es)\<rparr>)"


section \<open>The search tool (\<open>tools/search.ts\<close>)\<close>

text \<open>
  \<open>searchSingleQuery\<close> never rejects: it returns the parsed results or \<open>[]\<close>. What the
  \<open>i\<close>-th call returns is the parameter \<open>search i\<close>. An awaited call is logged when it
  starts and when it settles; the code after an \<open>await\<close> runs once the awaited promise has
  settled.
\<close>

record search_hit =
  url :: jsstring
  hit_title :: jsstring
  snippet :: jsstring

datatype event =
    DelayStart nat
  | DelayEnd nat
  | RequestStart nat jsstring
  | RequestEnd nat jsstring

definition INTER_QUERY_DELAY_MS :: nat where
  "INTER_QUERY_DELAY_MS = 400"

definition delay :: "nat \<Rightarrow> event list \<Rightarrow> event list" where
  "delay ms log = log @ [DelayStart ms, DelayEnd ms]"

function search_loop ::
  "(nat \<Rightarrow> jsstring \<Rightarrow> int \<Rightarrow> search_hit list) \<Rightarrow> jsstring list \<Rightarrow> int \<Rightarrow> nat
     \<Rightarrow> event list \<times> search_hit list list \<Rightarrow> event list \<times> search_hit list list" where
  "search_loop search queries resultsPerQuery i (log, allResults) =
     (if i < length queries
      then
        let log = (if 0 < i then delay INTER_QUERY_DELAY_MS log else log);
            log = log @ [RequestStart i (queries ! i)];
            results = search i (queries ! i) resultsPerQuery;
            log = log @ [RequestEnd i (queries ! i)]
        in search_loop search queries resultsPerQuery (Suc i) (log, allResults @ [results])
      else (log, allResults))"
  by pat_completeness auto
termination
  by (relation "measure (\<lambda>(search, queries, resultsPerQuery, i, st). length queries - i)") auto

declare search_loop.simps [simp del]

text \<open>
  The inner loop over the results of one query; its state is \<open>urlToSnippet\<close>,
  \<open>urlToTitle\<close>, \<open>queryUrls\<close> and \<open>allUrls\<close>.
\<close>

fun collect_results ::
  "search_hit list
     \<Rightarrow> jsstring js_record \<times> jsstring js_record \<times> jsstring list \<times> jsstring list
     \<Rightarrow> jsstring js_record \<times> jsstring js_record \<times> jsstring list \<times> jsstring list" where
  "collect_results [] st = st"
| "collect_results (result # rest) (urlToSnippet, urlToTitle, queryUrls, allUrls) =
     (if url result = [] then collect_results rest (urlToSnippet, urlToTitle, queryUrls, allUrls)
      else if \<not> has_property urlToSnippet (url result)
      then collect_results rest
             (assign (url result) (snippet result) urlToSnippet,
              assign (url result) (hit_title result) urlToTitle,
              queryUrls @ [url result], allUrls @ [url result])
      else collect_results rest
             (urlToSnippet, urlToTitle, queryUrls @ [url result], allUrls @ [url result]))"

text \<open>The outer loop over the queries and their results.\<close>

fun collect_queries ::
  "(jsstring \<times> search_hit list) list
     \<Rightarrow> jsstring js_record \<times> jsstring js_record \<times> jsstring list js_record \<times> jsstring list
     \<Rightarrow> jsstring js_record \<times> jsstring js_record \<times> jsstring list js_record \<times> jsstring list" where
  "collect_queries [] st = st"
| "collect_queries ((query, results) # rest) (urlToSnippet, urlToTitle, queryToUrls, allUrls) =
     (case collect_results results (urlToSnippet, urlToTitle, [], allUrls) of
        (urlToSnippet, urlToTitle, queryUrls, allUrls) \<Rightarrow>
          collect_queries rest
            (urlToSnippet, urlToTitle, assign query queryUrls queryToUrls, allUrls))"

record search_result =
  urls :: "jsstring list"
  snippets :: "js_value js_record"
  search_titles :: "js_value js_record"
  queryResults :: "jsstring list js_record"

text \<open>
  \<open>urlToSnippet\<close>, \<open>urlToTitle\<close>, \<open>queryToUrls\<close> and \<open>allUrls\<close> as the two loops
  leave them.
\<close>

definition collected ::
  "(nat \<Rightarrow> jsstring \<Rightarrow> int \<Rightarrow> search_hit list) \<Rightarrow> jsstring list \<Rightarrow> int
     \<Rightarrow> jsstring js_record \<times> jsstring js_record \<times> jsstring list js_record \<times> jsstring list" where
  "collected search queries resultsPerQuery =
     collect_queries
       (zip queries (snd (search_loop search queries resultsPerQuery 0 ([], []))))
       ([], [], [], [])"

text \<open>\<open>multiSearch\<close> returns the log of what it awaited together with its result.\<close>

definition multiSearch ::
  "url_lib \<Rightarrow> (nat \<Rightarrow> jsstring \<Rightarrow> int \<Rightarrow> search_hit list) \<Rightarrow> jsstring list \<Rightarrow> int
     \<Rightarrow> event list \<times> search_result" where
  "multiSearch lib search queries resultsPerQuery =
     (if queries = []
      then ([], \<lparr>urls = [], snippets = [], search_titles = [], queryResults = []\<rparr>)
      else
        case search_loop search queries resultsPerQuery 0 ([], []) of
          (log, allResults) \<Rightarrow>
            (case collect_queries (zip queries allResults) ([], [], [], []) of
               (urlToSnippet, urlToTitle, queryToUrls, allUrls) \<Rightarrow>
                 let uniqueUrls = deduplicateUrls lib allUrls
                 in (log,
                     \<lparr>urls = uniqueUrls,
                      snippets =
                        fromEntries (map (\<lambda>url. (url, lookup_or_empty urlToSnippet url)) uniqueUrls),
                      search_titles =
                        fromEntries (map (\<lambda>url. (url, lookup_or_empty urlToTitle url)) uniqueUrls),
                      queryResults = queryToUrls\<rparr>)))"


section \<open>Specification-side definitions\<close>

subsection \<open>The tiers of the boundary truncator\<close>

text \<open>
  The truncator as the specification words it: the last position in the cut window where one
  of the tier's patterns occurs, accepted only if the tier's gate holds for it; the first
  accepted tier wins. The gates are parameters, so that the gates of the specification
  (\<open>at_least_percent\<close>) and those of the code (\<open>above_double\<close>) can be compared.
\<close>

definition occurs_at :: "jsstring \<Rightarrow> jsstring \<Rightarrow> nat \<Rightarrow> bool" where
  "occurs_at s pat i \<longleftrightarrow> i + length pat \<le> length s \<and> take (length pat) (drop i s) = pat"

definition last_occurrence :: "jsstring \<Rightarrow> jsstring list \<Rightarrow> nat option" where
  "last_occurrence s pats =
     List.find (\<lambda>i. \<exists>pat \<in> set pats. occurs_at s pat i) (rev [0..<Suc (length s)])"

definition tier_cut :: "(nat \<Rightarrow> bool) \<Rightarrow> jsstring list \<Rightarrow> jsstring \<Rightarrow> nat option" where
  "tier_cut gate pats window =
     (case last_occurrence window pats of
        None \<Rightarrow> None
      | Some p \<Rightarrow> if gate p then Some p else None)"

definition truncate_by_tiers ::
  "(nat \<Rightarrow> nat \<Rightarrow> bool) \<Rightarrow> (nat \<Rightarrow> nat \<Rightarrow> bool) \<Rightarrow> jsstring \<Rightarrow> nat \<Rightarrow> jsstring" where
  "truncate_by_tiers gate70 gate80 text maxChars =
     (if length text \<le> maxChars then text
      else
        let window = take maxChars text
        in case tier_cut (gate70 maxChars) [[0x0A, 0x0A]] window of
             Some p \<Rightarrow> trim (take p window) @ MARKER
           | None \<Rightarrow>
               (case tier_cut (gate70 maxChars) [str ''. '', str ''! '', str ''? ''] window of
                  Some p \<Rightarrow> trim (take (Suc p) window) @ MARKER
                | None \<Rightarrow>
                    (case tier_cut (gate80 maxChars) [str '' ''] window of
                       Some p \<Rightarrow> trim (take p window) @ ELLIPSIS_MARKER
                     | None \<Rightarrow> trim window @ ELLIPSIS_MARKER)))"

text \<open>"Position at least \<open>pc\<close> percent of \<open>maxChars\<close>", in exact arithmetic.\<close>

definition at_least_percent :: "nat \<Rightarrow> nat \<Rightarrow> nat \<Rightarrow> bool" where
  "at_least_percent pc maxChars p \<longleftrightarrow> pc * maxChars \<le> 100 * p"

text \<open>The gate of the code: \<open>p > maxChars * c\<close> in double precision.\<close>

definition above_double :: "int \<Rightarrow> nat \<Rightarrow> nat \<Rightarrow> bool" where
  "above_double c maxChars p \<longleftrightarrow> gt_double (int p) (times_double (int maxChars) c)"

definition pos_int :: "nat option \<Rightarrow> int" where
  "pos_int r = (case r of None \<Rightarrow> - 1 | Some i \<Rightarrow> int i)"

subsection \<open>First occurrences\<close>

fun first_seen :: "('a \<Rightarrow> 'k) \<Rightarrow> 'k set \<Rightarrow> 'a list \<Rightarrow> 'a list" where
  "first_seen key seen [] = []"
| "first_seen key seen (u # us) =
     (if key u \<in> seen then first_seen key seen us
      else u # first_seen key (insert (key u) seen) us)"

subsection \<open>Normalization as the specification words it\<close>

text \<open>"Strips exactly one trailing \<open>/\<close> from the path unless the path is exactly \<open>/\<close>."\<close>

definition strip_one_trailing_slash :: "jsstring \<Rightarrow> jsstring" where
  "strip_one_trailing_slash p = (if p \<noteq> str ''/'' \<and> suffix (str ''/'') p then butlast p else p)"

text \<open>
  "Removes exactly the parameters whose name, compared case-insensitively, is in the
  tracking set, and preserves every other parameter."
\<close>

definition without_tracking ::
  "url_lib \<Rightarrow> (jsstring \<times> jsstring) list \<Rightarrow> (jsstring \<times> jsstring) list" where
  "without_tracking lib ps = filter (\<lambda>(n, v). toLowerCase lib n \<notin> TRACKING_PARAMS) ps"

subsection \<open>Title candidates\<close>

text \<open>
  The three candidates in priority order, each absent or a string; the title is the first
  that is not empty once trimmed.
\<close>

definition title_candidates :: "document \<Rightarrow> jsstring option list" where
  "title_candidates d =
     [Option.bind (d (str ''title'')) textContent,
      Option.bind (d (str ''h1'')) textContent,
      Option.bind (d OG_TITLE_SELECTOR) (\<lambda>el. getAttribute el (str ''content''))]"

definition first_nonempty_trimmed :: "jsstring option list \<Rightarrow> jsstring option" where
  "first_nonempty_trimmed cs = List.find (\<lambda>s. s \<noteq> []) (map trim (List.map_filter (\<lambda>c. c) cs))"

subsection \<open>Example platforms\<close>

text \<open>
  A URL parser that knows a handful of URLs, each parsed as the WHATWG parser parses it, and
  rejects every other string; ASCII lower-casing; and an encoder that leaves the unreserved
  characters of the examples as they are.
\<close>

definition ascii_lower :: "jsstring \<Rightarrow> jsstring" where
  "ascii_lower s = map (\<lambda>c. if 0x41 \<le> c \<and> c \<le> 0x5A then c + 0x20 else c) s"

definition example_URL :: "jsstring \<Rightarrow> parsed_url outcome" where
  "example_URL u =
     (if u = str ''https://example.com/p?id=1&id=2''
      then Returns \<lparr>protocol = str ''https:'', hostname = str ''example.com'',
             pathname = str ''/p'',
             searchParams = [(str ''id'', str ''1''), (str ''id'', str ''2'')]\<rparr>
      else if u = str ''https://example.com/p?utm_source=x&id=1''
      then Returns \<lparr>protocol = str ''https:'', hostname = str ''example.com'',
             pathname = str ''/p'',
             searchParams = [(str ''utm_source'', str ''x''), (str ''id'', str ''1'')]\<rparr>
      else if u = str ''https://WWW.Example.COM/Page/''
      then Returns \<lparr>protocol = str ''https:'', hostname = str ''www.example.com'',
             pathname = str ''/Page/'', searchParams = []\<rparr>
      else if u = str ''https://example.com/Page''
      then Returns \<lparr>protocol = str ''https:'', hostname = str ''example.com'',
             pathname = str ''/Page'', searchParams = []\<rparr>
      else if u = str ''https://example.com/a//''
      then Returns \<lparr>protocol = str ''https:'', hostname = str ''example.com'',
             pathname = str ''/a//'', searchParams = []\<rparr>
      else if u = str ''https://example.com/''
      then Returns \<lparr>protocol = str ''https:'', hostname = str ''example.com'',
             pathname = str ''/'', searchParams = []\<rparr>
      else if u = str ''http://www./''
      then Returns \<lparr>protocol = str ''http:'', hostname = str ''www.'',
             pathname = str ''/'', searchParams = []\<rparr>
      else Throws)"

definition example_urls :: url_lib where
  "example_urls = \<lparr>URL_parse = example_URL, toLowerCase = ascii_lower, urlencode = (\<lambda>s. s)\<rparr>"

text \<open>An HTML library for which Readability finds no article and the body text is given.\<close>

definition body_only :: "jsstring \<Rightarrow> html_lib" where
  "body_only t =
     \<lparr>parseHTML = (\<lambda>html. Throws), readability_text = (\<lambda>html. Returns None),
      stripped_body_text = (\<lambda>html. Returns (Some t))\<rparr>"


text \<open>
  A parsed page with the given title text, first \<open>h1\<close> text and \<open>og:title\<close> content, each
  present or not.
\<close>

definition text_element :: "jsstring \<Rightarrow> dom_element" where
  "text_element s = \<lparr>textContent = Some s, getAttribute = (\<lambda>a. None)\<rparr>"

definition meta_element :: "jsstring \<Rightarrow> dom_element" where
  "meta_element c =
     \<lparr>textContent = Some [], getAttribute = (\<lambda>a. if a = str ''content'' then Some c else None)\<rparr>"

definition example_document ::
  "jsstring option \<Rightarrow> jsstring option \<Rightarrow> jsstring option \<Rightarrow> document" where
  "example_document t h og selector =
     (if selector = str ''title'' then map_option text_element t
      else if selector = str ''h1'' then map_option text_element h
      else if selector = OG_TITLE_SELECTOR then map_option meta_element og
      else None)"

definition parsed_as :: "document \<Rightarrow> html_lib" where
  "parsed_as d =
     \<lparr>parseHTML = (\<lambda>html. Returns d), readability_text = (\<lambda>html. Returns None),
      stripped_body_text = (\<lambda>html. Returns None)\<rparr>"


subsection \<open>The schedule of the searches\<close>

text \<open>
  What query \<open>i\<close> contributes to the log: the delay, unless it is the first query, and then
  its request from start to end.
\<close>

definition query_events :: "jsstring list \<Rightarrow> nat \<Rightarrow> event list" where
  "query_events queries i =
     (if 0 < i then [DelayStart 400, DelayEnd 400] else [])
     @ [RequestStart i (queries ! i), RequestEnd i (queries ! i)]"

text \<open>The results of all the searches, query by query in input order.\<close>

definition all_hits ::
  "(nat \<Rightarrow> jsstring \<Rightarrow> int \<Rightarrow> search_hit list) \<Rightarrow> jsstring list \<Rightarrow> int \<Rightarrow> search_hit list" where
  "all_hits search queries resultsPerQuery =
     concat (map (\<lambda>i. search i (queries ! i) resultsPerQuery) [0..<length queries])"

text \<open>
  A search engine that answers two queries with the same page under two spellings, and one
  whose only result has the URL \<open>toString\<close>.
\<close>

definition example_search :: "nat \<Rightarrow> jsstring \<Rightarrow> int \<Rightarrow> search_hit list" where
  "example_search i query maxResults =
     (if i = 0
      then [\<lparr>url = str ''https://example.com/Page'', hit_title = str ''T1'', snippet = []\<rparr>]
      else [\<lparr>url = str ''https://WWW.Example.COM/Page/'', hit_title = str ''T2'',
             snippet = str ''S2''\<rparr>,
            \<lparr>url = str ''x'', hit_title = str ''T3'', snippet = str ''S3''\<rparr>])"

definition toString_search :: "nat \<Rightarrow> jsstring \<Rightarrow> int \<Rightarrow> search_hit list" where
  "toString_search i query maxResults =
     [\<lparr>url = str ''toString'', hit_title = str ''T'', snippet = str ''S''\<rparr>]"


subsection \<open>Recorded fetch outcomes\<close>

text \<open>
  A page result leaves a trace in \<open>errors\<close> or in \<open>contents\<close> when its error message or
  its extracted content is a non-empty string.
\<close>

definition recorded :: "page_result \<Rightarrow> bool" where
  "recorded r \<longleftrightarrow> truthy (error r) \<or> truthy (content r)"

text \<open>
  A network whose first call answers with an HTML page of the given body and whose later
  calls answer 404, and one that always answers with the page.
\<close>

definition html_page :: "jsstring \<Rightarrow> response settled" where
  "html_page html =
     Fulfilled \<lparr>ok = True, status = 200, content_type = Some (str ''text/html''),
                body_text = Fulfilled html\<rparr>"

definition not_found :: "response settled" where
  "not_found =
     Fulfilled \<lparr>ok = False, status = 404, content_type = Some (str ''text/html''),
                body_text = Fulfilled []\<rparr>"

definition page_then_404 :: "jsstring \<Rightarrow> nat \<Rightarrow> jsstring \<Rightarrow> response settled" where
  "page_then_404 html i u = (if i = 0 then html_page html else not_found)"


section \<open>Boundary truncation\<close>

lemma lastIndexOf_from_find:
  "lastIndexOf_from s pat k = pos_int (List.find (\<lambda>i. prefix pat (drop i s)) (rev [0..<Suc k]))"
  by (induction k) (simp_all add: pos_int_def)

lemma find_rev_upt_shrink:
  assumes "k \<le> n" and "\<And>i. k < i \<Longrightarrow> i \<le> n \<Longrightarrow> \<not> P i"
  shows "List.find P (rev [0..<Suc n]) = List.find P (rev [0..<Suc k])"
  using assms
proof (induction n)
  case 0
  then show ?case by simp
next
  case (Suc n)
  show ?case
  proof (cases "k = Suc n")
    case True
    then show ?thesis by simp
  next
    case False
    with Suc.prems have "k \<le> n" by simp
    moreover have "\<not> P (Suc n)" using Suc.prems False by simp
    ultimately show ?thesis using Suc by simp
  qed
qed

lemma occurs_at_prefix:
  assumes "i \<le> length s"
  shows "occurs_at s pat i = prefix pat (drop i s)"
proof
  assume "occurs_at s pat i"
  then have "take (length pat) (drop i s) = pat" by (simp add: occurs_at_def)
  then have "drop i s = pat @ drop (length pat) (drop i s)"
    by (metis append_take_drop_id)
  then show "prefix pat (drop i s)" by (metis prefixI)
next
  assume "prefix pat (drop i s)"
  then obtain zs where zs: "drop i s = pat @ zs" by (auto simp: prefix_def)
  then have "length s - i = length pat + length zs"
    by (metis length_append length_drop)
  with assms have "i + length pat \<le> length s" by simp
  moreover have "take (length pat) (drop i s) = pat" using zs by simp
  ultimately show "occurs_at s pat i" by (simp add: occurs_at_def)
qed

lemma lastIndexOf_last_occurrence:
  "lastIndexOf s pat = pos_int (last_occurrence s [pat])"
proof (cases "length pat \<le> length s")
  case True
  let ?k = "length s - length pat"
  have "List.find (\<lambda>i. occurs_at s pat i) (rev [0..<Suc (length s)])
        = List.find (\<lambda>i. occurs_at s pat i) (rev [0..<Suc ?k])"
    by (rule find_rev_upt_shrink) (auto simp: occurs_at_def)
  also have "\<dots> = List.find (\<lambda>i. prefix pat (drop i s)) (rev [0..<Suc ?k])"
    by (rule find_cong) (auto simp: occurs_at_prefix)
  finally show ?thesis
    using True by (simp add: lastIndexOf_def last_occurrence_def lastIndexOf_from_find)
next
  case False
  then have "\<And>i. \<not> occurs_at s pat i" by (auto simp: occurs_at_def)
  then have "List.find (\<lambda>i. occurs_at s pat i) (rev [0..<Suc (length s)]) = None"
    by (simp add: find_None_iff)
  with False show ?thesis
    by (simp add: lastIndexOf_def last_occurrence_def pos_int_def)
qed

lemma find_rev_upt_bound:
  "pos_int (List.find P (rev [0..<n])) < int n"
proof (cases "List.find P (rev [0..<n])")
  case None
  then show ?thesis by (simp add: pos_int_def)
next
  case (Some i)
  then obtain k where "k < length (rev [0..<n])" and "i = rev [0..<n] ! k"
    unfolding find_Some_iff by blast
  then have "i \<in> set (rev [0..<n])" by (metis nth_mem)
  with Some show ?thesis by (simp add: pos_int_def)
qed

lemma find_rev_upt_disj:
  "pos_int (List.find (\<lambda>i. P i \<or> Q i) (rev [0..<n]))
   = max (pos_int (List.find P (rev [0..<n]))) (pos_int (List.find Q (rev [0..<n])))"
proof (induction n)
  case 0
  then show ?case by (simp add: pos_int_def)
next
  case (Suc n)
  have bP: "pos_int (List.find P (rev [0..<n])) < int n" by (rule find_rev_upt_bound)
  have bQ: "pos_int (List.find Q (rev [0..<n])) < int n" by (rule find_rev_upt_bound)
  show ?case using Suc bP bQ by (auto simp: pos_int_def max_def)
qed

lemma last_occurrence_sentence:
  "max (max (lastIndexOf s a) (lastIndexOf s b)) (lastIndexOf s c)
   = pos_int (last_occurrence s [a, b, c])"
proof -
  let ?xs = "rev [0..<Suc (length s)]"
  have one: "lastIndexOf s pat = pos_int (List.find (occurs_at s pat) ?xs)" for pat
    by (simp add: lastIndexOf_last_occurrence last_occurrence_def del: upt_Suc)
  have "last_occurrence s [a, b, c]
        = List.find (\<lambda>i. (occurs_at s a i \<or> occurs_at s b i) \<or> occurs_at s c i) ?xs"
    by (simp add: last_occurrence_def disj_assoc del: upt_Suc)
  then show ?thesis
    by (simp only: find_rev_upt_disj one)
qed

lemma round53_nonneg: "0 \<le> round53 N" if "0 \<le> N"
  using that by (simp add: round53_def Let_def pos_imp_zdiv_nonneg_iff)

lemma times_double_nonneg: "0 \<le> m \<Longrightarrow> 0 \<le> c \<Longrightarrow> 0 \<le> times_double m c"
  by (simp add: times_double_def round53_nonneg)

text \<open>
  In double precision \<open>10 * 0.7\<close> is \<open>7\<close>, \<open>90 * 0.7\<close> is just below \<open>63\<close>, and
  \<open>10 * 0.8\<close> is \<open>8\<close>.
\<close>

lemma times_double_examples:
  "times_double 10 D0_7 = 7 * 2 ^ 53"
  "times_double 90 D0_7 = 63 * 2 ^ 53 - 2 ^ 6"
  "times_double 10 D0_8 = 8 * 2 ^ 53"
  by code_simp+

text \<open>
  The double-precision gates against the exact percentages, for every \<open>maxChars\<close> below
  \<open>2 ^ 49\<close>. Rounding to 53 bits moves a product by at most one part in \<open>2 ^ 53\<close> and never
  across a multiple of the unit it rounds to. So the gate \<open>p > maxChars * 0.8\<close> is exactly
  "more than 80 percent"; the gate \<open>p > maxChars * 0.7\<close> holds above 70 percent, fails below
  it, and at exactly 70 percent depends on the rounding (it fails for \<open>maxChars = 10\<close> and
  holds for \<open>maxChars = 90\<close>, see \<open>times_double_examples\<close>).
\<close>

lemma bit_length_nonpos: "N \<le> 0 \<Longrightarrow> bit_length N = 0"
  by (subst bit_length.simps) simp

lemma bit_length_pos: "0 < N \<Longrightarrow> bit_length N = Suc (bit_length (N div 2))"
  by (subst bit_length.simps) simp

lemma bit_length_lower: "0 < N \<Longrightarrow> 2 ^ (bit_length N - 1) \<le> N"
proof (induction N rule: bit_length.induct)
  case (1 n)
  show ?case
  proof (cases "n div 2 \<le> 0")
    case True
    with "1.prems" have "n = 1" by linarith
    then show ?thesis by (simp add: bit_length_pos bit_length_nonpos)
  next
    case False
    then have pos: "0 < n div 2" by simp
    with "1.prems" "1.IH" have ih: "2 ^ (bit_length (n div 2) - 1) \<le> n div 2" by simp
    have "bit_length n = Suc (bit_length (n div 2))" using "1.prems" by (rule bit_length_pos)
    moreover have "bit_length (n div 2) = Suc (bit_length (n div 2 div 2))"
      using pos by (rule bit_length_pos)
    ultimately have "(2::int) ^ (bit_length n - 1) = 2 * 2 ^ (bit_length (n div 2) - 1)"
      by simp
    also have "\<dots> \<le> 2 * (n div 2)" using ih by simp
    also have "\<dots> \<le> n" by linarith
    finally show ?thesis .
  qed
qed

lemma bit_length_le: "N < 2 ^ k \<Longrightarrow> bit_length N \<le> k"
proof (cases "0 < N")
  case False
  then show ?thesis by (simp add: bit_length_nonpos)
next
  case True
  assume "N < 2 ^ k"
  with bit_length_lower [OF True] have "(2::int) ^ (bit_length N - 1) < 2 ^ k" by linarith
  then have "bit_length N - 1 < k" by (simp add: power_strict_increasing_iff)
  then show ?thesis by simp
qed

lemma round53_error:
  assumes "0 \<le> N"
  shows "9007199254740992 * round53 N \<le> 9007199254740993 * N"
    and "9007199254740991 * N \<le> 9007199254740992 * round53 N"
proof -
  have "9007199254740992 * round53 N \<le> 9007199254740993 * N
        \<and> 9007199254740991 * N \<le> 9007199254740992 * round53 N"
  proof (cases "bit_length N - 53 = 0")
    case True
    with assms show ?thesis by (simp add: round53_def)
  next
    case False
    define s where "s = bit_length N - 53"
    define P where "P = (2::int) ^ s"
    define QP where "QP = (N div P) * P"
    define r where "r = N mod P"
    from False have b: "bit_length N - 1 = s + 52" by (simp add: s_def)
    have "0 < N"
    proof (rule ccontr)
      assume "\<not> 0 < N"
      then have "bit_length N = 0" by (simp add: bit_length_nonpos)
      with False show False by simp
    qed
    from bit_length_lower [OF this] b have "(2::int) ^ (s + 52) \<le> N" by simp
    then have big: "4503599627370496 * P \<le> N" by (simp add: power_add P_def)
    have N: "N = QP + r" by (simp add: QP_def r_def)
    have r: "0 \<le> r" "r < P" by (simp_all add: r_def P_def)
    have R: "round53 N = (if P < 2 * r \<or> (2 * r = P \<and> odd (N div P)) then QP + P else QP)"
      using False by (simp add: round53_def Let_def s_def P_def QP_def r_def algebra_simps)
    show ?thesis
    proof (cases "P < 2 * r \<or> (2 * r = P \<and> odd (N div P))")
      case True
      then have "round53 N = QP + P" and "P \<le> 2 * r" using R by auto
      with N r big show ?thesis by (intro conjI) linarith+
    next
      case down: False
      then have "round53 N = QP" and "2 * r \<le> P" using R by auto
      with N r big show ?thesis by (intro conjI) linarith+
    qed
  qed
  then show "9007199254740992 * round53 N \<le> 9007199254740993 * N"
    and "9007199254740991 * N \<le> 9007199254740992 * round53 N" by simp_all
qed

lemma round53_above_multiple:
  assumes "2 ^ (bit_length N - 53) dvd X" and "X \<le> N"
  shows "X \<le> round53 N"
proof (cases "bit_length N - 53 = 0")
  case True
  with assms show ?thesis by (simp add: round53_def)
next
  case False
  define P where "P = (2::int) ^ (bit_length N - 53)"
  have P: "0 < P" by (simp add: P_def)
  from assms(1) obtain k where k: "X = k * P" by (auto simp: P_def dvd_def mult.commute)
  have "X div P \<le> N div P" using assms(2) P by (simp add: zdiv_mono1)
  then have "k \<le> N div P" using k P by simp
  then have "k * P \<le> (N div P) * P" using P by (simp add: mult_right_mono)
  moreover have "(N div P) * P \<le> round53 N"
    using False P by (auto simp: round53_def Let_def P_def algebra_simps)
  ultimately show ?thesis using k by simp
qed

lemma ten_D0_7: "10 * D0_7 = 63050394783186940" and ten_D0_8: "10 * D0_8 = 72057594037927940"
  by (simp_all add: D0_7_def D0_8_def)

lemma shift_dvd:
  assumes "N < 2 ^ 106"
  shows "2 ^ (bit_length N - 53) dvd p * (2::int) ^ 53"
proof -
  have "bit_length N \<le> 106" using assms by (rule bit_length_le)
  then have "bit_length N - 53 \<le> 53" by simp
  then have "(2::int) ^ (bit_length N - 53) dvd 2 ^ 53" by (rule le_imp_power_dvd)
  then show ?thesis by (rule dvd_mult)
qed

lemma above_double_0_8:
  assumes "maxChars < 2 ^ 49"
  shows "above_double D0_8 maxChars p \<longleftrightarrow> 8 * maxChars < 10 * p"
proof -
  define m where "m = int maxChars"
  define N where "N = m * D0_8"
  define R where "R = round53 N"
  have m: "0 \<le> m" "m < 562949953421312" using assms by (simp_all add: m_def)
  have N10: "10 * N = 72057594037927940 * m" using ten_D0_8 by (simp add: N_def)
  have N0: "0 \<le> N" using m by (simp add: N_def D0_8_def)
  have N106: "N < 2 ^ 106" using N10 m by simp
  have gate: "above_double D0_8 maxChars p \<longleftrightarrow> R < 9007199254740992 * int p"
    using m by (simp add: above_double_def gt_double_def times_double_def R_def N_def m_def
        mult.commute)
  have err: "9007199254740992 * R \<le> 9007199254740993 * N"
    unfolding R_def using N0 by (rule round53_error)
  show ?thesis
  proof
    assume "above_double D0_8 maxChars p"
    then have lt: "R < 9007199254740992 * int p" by (simp add: gate)
    show "8 * maxChars < 10 * p"
    proof (rule ccontr)
      assume "\<not> 8 * maxChars < 10 * p"
      then have "10 * int p \<le> 8 * m" by (simp add: m_def)
      then have "int p * 2 ^ 53 \<le> N" using N10 m by simp
      moreover have "2 ^ (bit_length N - 53) dvd int p * 2 ^ 53" using N106 by (rule shift_dvd)
      ultimately have "int p * 2 ^ 53 \<le> R" unfolding R_def using round53_above_multiple by blast
      with lt show False by simp
    qed
  next
    assume "8 * maxChars < 10 * p"
    then have "8 * m + 1 \<le> 10 * int p" by (simp add: m_def)
    with err N10 m have "R < 9007199254740992 * int p" by linarith
    then show "above_double D0_8 maxChars p" by (simp add: gate)
  qed
qed

lemma above_double_0_7:
  assumes "maxChars < 2 ^ 49"
  shows "(7 * maxChars < 10 * p \<longrightarrow> above_double D0_7 maxChars p)
         \<and> (above_double D0_7 maxChars p \<longrightarrow> 7 * maxChars \<le> 10 * p)"
proof -
  define m where "m = int maxChars"
  define N where "N = m * D0_7"
  define R where "R = round53 N"
  have m: "0 \<le> m" "m < 562949953421312" using assms by (simp_all add: m_def)
  have N10: "10 * N = 63050394783186940 * m" using ten_D0_7 by (simp add: N_def)
  have N0: "0 \<le> N" using m by (simp add: N_def D0_7_def)
  have N106: "N < 2 ^ 106" using N10 m by simp
  have gate: "above_double D0_7 maxChars p \<longleftrightarrow> R < 9007199254740992 * int p"
    using m by (simp add: above_double_def gt_double_def times_double_def R_def N_def m_def
        mult.commute)
  have err: "9007199254740992 * R \<le> 9007199254740993 * N"
    unfolding R_def using N0 by (rule round53_error)
  show ?thesis
  proof (intro conjI impI)
    assume "7 * maxChars < 10 * p"
    then have "7 * m + 1 \<le> 10 * int p" by (simp add: m_def)
    with err N10 m have "R < 9007199254740992 * int p" by linarith
    then show "above_double D0_7 maxChars p" by (simp add: gate)
  next
    assume "above_double D0_7 maxChars p"
    then have lt: "R < 9007199254740992 * int p" by (simp add: gate)
    show "7 * maxChars \<le> 10 * p"
    proof (rule ccontr)
      assume "\<not> 7 * maxChars \<le> 10 * p"
      then have "10 * int p + 1 \<le> 7 * m" by (simp add: m_def)
      then have "int p * 2 ^ 53 \<le> N" using N10 m by simp
      moreover have "2 ^ (bit_length N - 53) dvd int p * 2 ^ 53" using N106 by (rule shift_dvd)
      ultimately have "int p * 2 ^ 53 \<le> R" unfolding R_def using round53_above_multiple by blast
      with lt show False by simp
    qed
  qed
qed

lemma tier_select:
  assumes "0 \<le> x"
  shows "(if gt_double (pos_int (last_occurrence w pats)) x
          then f (pos_int (last_occurrence w pats)) else e)
         = (case tier_cut (\<lambda>p. gt_double (int p) x) pats w of
              Some p \<Rightarrow> f (int p) | None \<Rightarrow> e)"
proof (cases "last_occurrence w pats")
  case None
  have "\<not> gt_double (- 1) x" using assms by (simp add: gt_double_def)
  with None show ?thesis by (simp add: tier_cut_def pos_int_def)
next
  case (Some p)
  then show ?thesis by (simp add: tier_cut_def pos_int_def)
qed

text \<open>
  The code as a tiered truncator, under the gates it computes. For every string and every
  positive \<open>maxChars\<close>: a text of at most \<open>maxChars\<close> code units is returned unchanged,
  without a marker; a longer one is cut at \<open>maxChars\<close> and the first tier whose gate holds
  wins: the last paragraph break, then the last sentence end (cut after the punctuation),
  then the last space, then the raw cut. The kept prefix is trimmed; the first two tiers
  append \<open>MARKER\<close>, the last two \<open>ELLIPSIS_MARKER\<close>.
\<close>

lemma truncateAtBoundary_tiers:
  assumes "0 < maxChars"
  shows "truncateAtBoundary text maxChars
         = truncate_by_tiers (above_double D0_7) (above_double D0_8) text (nat maxChars)"
proof (cases "int (length text) \<le> maxChars")
  case True
  then have "length text \<le> nat maxChars" by linarith
  with True show ?thesis by (simp add: truncateAtBoundary_def truncate_by_tiers_def)
next
  case False
  define w where "w = take (nat maxChars) text"
  have window: "slice0 text maxChars = w" using assms by (simp add: slice0_def w_def)
  have x7: "0 \<le> times_double maxChars D0_7"
    using assms by (simp add: times_double_nonneg D0_7_def)
  have x8: "0 \<le> times_double maxChars D0_8"
    using assms by (simp add: times_double_nonneg D0_8_def)
  have g7: "above_double D0_7 (nat maxChars)
            = (\<lambda>p. gt_double (int p) (times_double maxChars D0_7))"
    using assms by (simp add: above_double_def fun_eq_iff)
  have g8: "above_double D0_8 (nat maxChars)
            = (\<lambda>p. gt_double (int p) (times_double maxChars D0_8))"
    using assms by (simp add: above_double_def fun_eq_iff)
  have t1: "\<And>e. (if gt_double (lastIndexOf w [0x0A, 0x0A]) (times_double maxChars D0_7)
                  then trim (slice0 w (lastIndexOf w [0x0A, 0x0A])) @ MARKER else e)
            = (case tier_cut (above_double D0_7 (nat maxChars)) [[0x0A, 0x0A]] w of
                 Some p \<Rightarrow> trim (take p w) @ MARKER | None \<Rightarrow> e)"
    unfolding lastIndexOf_last_occurrence g7
    by (subst tier_select [OF x7, where f = "\<lambda>i. trim (slice0 w i) @ MARKER"])
       (simp add: slice0_def split: option.splits)
  define ls where "ls = max (max (lastIndexOf w (str ''. '')) (lastIndexOf w (str ''! '')))
                       (lastIndexOf w (str ''? ''))"
  have ls: "ls = pos_int (last_occurrence w [str ''. '', str ''! '', str ''? ''])"
    unfolding ls_def by (rule last_occurrence_sentence)
  have t2: "\<And>e. (if gt_double ls (times_double maxChars D0_7)
                  then trim (slice0 w (ls + 1)) @ MARKER else e)
            = (case tier_cut (above_double D0_7 (nat maxChars))
                      [str ''. '', str ''! '', str ''? ''] w of
                 Some p \<Rightarrow> trim (take (Suc p) w) @ MARKER | None \<Rightarrow> e)"
    unfolding ls g7
    by (subst tier_select [OF x7, where f = "\<lambda>i. trim (slice0 w (i + 1)) @ MARKER"])
       (simp add: slice0_def nat_add_distrib split: option.splits)
  have t3: "\<And>e. (if gt_double (lastIndexOf w (str '' '')) (times_double maxChars D0_8)
                  then trim (slice0 w (lastIndexOf w (str '' ''))) @ ELLIPSIS_MARKER else e)
            = (case tier_cut (above_double D0_8 (nat maxChars)) [str '' ''] w of
                 Some p \<Rightarrow> trim (take p w) @ ELLIPSIS_MARKER | None \<Rightarrow> e)"
    unfolding lastIndexOf_last_occurrence g8
    by (subst tier_select [OF x8, where f = "\<lambda>i. trim (slice0 w i) @ ELLIPSIS_MARKER"])
       (simp add: slice0_def split: option.splits)
  have "truncateAtBoundary text maxChars
        = (if gt_double (lastIndexOf w [0x0A, 0x0A]) (times_double maxChars D0_7)
           then trim (slice0 w (lastIndexOf w [0x0A, 0x0A])) @ MARKER
           else if gt_double ls (times_double maxChars D0_7)
                then trim (slice0 w (ls + 1)) @ MARKER
                else if gt_double (lastIndexOf w (str '' '')) (times_double maxChars D0_8)
                     then trim (slice0 w (lastIndexOf w (str '' ''))) @ ELLIPSIS_MARKER
                     else trim w @ ELLIPSIS_MARKER)"
    using False by (simp add: truncateAtBoundary_def Let_def window ls_def)
  also have "\<dots> = truncate_by_tiers (above_double D0_7) (above_double D0_8) text (nat maxChars)"
  proof -
    have "\<not> length text \<le> nat maxChars" using False assms by linarith
    then show ?thesis
      unfolding t1 t2 t3 by (simp add: truncate_by_tiers_def Let_def flip: w_def)
  qed
  finally show ?thesis .
qed

text \<open>
  Away from the boundary the code does what the specification says: a position is at exactly
  70 or 80 percent of \<open>maxChars\<close> only if \<open>maxChars\<close> is a multiple of 5, and for every
  other \<open>maxChars\<close> below \<open>2 ^ 49\<close> the gates of the code are the gates "at least 70
  percent" and "at least 80 percent".
\<close>

lemma gates_off_boundary:
  assumes "maxChars < 2 ^ 49" and "maxChars mod 5 \<noteq> 0"
  shows "above_double D0_7 maxChars = at_least_percent 70 maxChars"
    and "above_double D0_8 maxChars = at_least_percent 80 maxChars"
proof -
  have ne7: "7 * maxChars \<noteq> 10 * p" for p using assms(2) by presburger
  have ne8: "8 * maxChars \<noteq> 10 * p" for p using assms(2) by presburger
  have "above_double D0_7 maxChars p \<longleftrightarrow> at_least_percent 70 maxChars p" for p
  proof -
    have "above_double D0_7 maxChars p \<longleftrightarrow> 7 * maxChars < 10 * p"
      using above_double_0_7 [OF assms(1), of p] ne7 [of p] by (auto simp: le_less)
    also have "\<dots> \<longleftrightarrow> 70 * maxChars \<le> 100 * p" using ne7 [of p] by linarith
    finally show ?thesis by (simp add: at_least_percent_def)
  qed
  then show "above_double D0_7 maxChars = at_least_percent 70 maxChars" by (simp add: fun_eq_iff)
  have "above_double D0_8 maxChars p \<longleftrightarrow> at_least_percent 80 maxChars p" for p
  proof -
    have "above_double D0_8 maxChars p \<longleftrightarrow> 8 * maxChars < 10 * p"
      by (rule above_double_0_8 [OF assms(1)])
    also have "\<dots> \<longleftrightarrow> 80 * maxChars \<le> 100 * p" using ne8 [of p] by linarith
    finally show ?thesis by (simp add: at_least_percent_def)
  qed
  then show "above_double D0_8 maxChars = at_least_percent 80 maxChars" by (simp add: fun_eq_iff)
qed

lemma truncateAtBoundary_off_boundary:
  assumes "0 < maxChars" and "maxChars < 2 ^ 49" and "maxChars mod 5 \<noteq> 0"
  shows "truncateAtBoundary text maxChars
         = truncate_by_tiers (at_least_percent 70) (at_least_percent 80) text (nat maxChars)"
proof -
  have small: "nat maxChars < 2 ^ 49" using assms(1,2) by (simp add: nat_less_iff)
  have "int (nat maxChars mod 5) = maxChars mod 5"
    using assms(1) by (simp add: zmod_int)
  with assms(3) have off: "nat maxChars mod 5 \<noteq> 0" by auto
  have "truncate_by_tiers (above_double D0_7) (above_double D0_8) text (nat maxChars)
        = truncate_by_tiers (at_least_percent 70) (at_least_percent 80) text (nat maxChars)"
    unfolding truncate_by_tiers_def gates_off_boundary [OF small off] by (rule refl)
  with truncateAtBoundary_tiers [OF assms(1)] show ?thesis by simp
qed

text \<open>
  With \<open>maxChars = 11\<close> a paragraph break at position 8 is above 70 percent; the text is
  cut there and \<open>MARKER\<close> appended.
\<close>

lemma truncateAtBoundary_off_boundary_example:
  "truncateAtBoundary (str ''aaaaaaaa'' @ [0x0A, 0x0A] @ str ''bbbb'') 11
     = truncate_by_tiers (at_least_percent 70) (at_least_percent 80)
         (str ''aaaaaaaa'' @ [0x0A, 0x0A] @ str ''bbbb'') 11
   \<and> truncateAtBoundary (str ''aaaaaaaa'' @ [0x0A, 0x0A] @ str ''bbbb'') 11
     = str ''aaaaaaaa'' @ MARKER"
proof -
  have "truncateAtBoundary (str ''aaaaaaaa'' @ [0x0A, 0x0A] @ str ''bbbb'') 11
        = str ''aaaaaaaa'' @ MARKER"
    by code_simp
  then show ?thesis
    using truncateAtBoundary_off_boundary [of 11 "str ''aaaaaaaa'' @ [0x0A, 0x0A] @ str ''bbbb''"]
    by simp
qed

text \<open>
  C1. The claim accepts a paragraph break "at position \<open>\<ge>\<close> 70 percent of \<open>maxChars\<close>",
  and the comment of the code on this tier says "at least 70% of content"; the code tests
  \<open>lastPara > maxChars * 0.7\<close>. With \<open>maxChars = 10\<close> and the text
  \<open>aaaaaaa\n\nbbbb\<close> the break is at position 7, exactly 70 percent: the claim cuts there
  and appends \<open>MARKER\<close>, while the code computes \<open>10 * 0.7 = 7\<close>, tests \<open>7 > 7\<close>, falls
  through every tier and makes the raw cut. At exactly 70 percent the code is not even
  uniform: with \<open>maxChars = 90\<close> the double \<open>90 * 0.7\<close> is just below 63, and a break at
  position 63 is accepted.
\<close>

theorem truncateAtBoundary_exactly_seventy_percent:
  "truncateAtBoundary (str ''aaaaaaa'' @ [0x0A, 0x0A] @ str ''bbbb'') 10
     = str ''aaaaaaa'' @ [0x0A, 0x0A] @ str ''b'' @ ELLIPSIS_MARKER
   \<and> truncate_by_tiers (at_least_percent 70) (at_least_percent 80)
       (str ''aaaaaaa'' @ [0x0A, 0x0A] @ str ''bbbb'') 10
     = str ''aaaaaaa'' @ MARKER
   \<and> truncateAtBoundary (str ''aaaaaaa'' @ [0x0A, 0x0A] @ str ''bbbb'') 10
     \<noteq> truncate_by_tiers (at_least_percent 70) (at_least_percent 80)
         (str ''aaaaaaa'' @ [0x0A, 0x0A] @ str ''bbbb'') 10
   \<and> truncateAtBoundary (replicate 63 0x61 @ [0x0A, 0x0A] @ replicate 30 0x62) 90
     = replicate 63 0x61 @ MARKER"
  by code_simp


section \<open>Whitespace and length of the extracted text\<close>





lemma last_trim: "trim s \<noteq> [] \<Longrightarrow> \<not> isWhiteSpace (last (trim s))"
proof -
  assume ne: "trim s \<noteq> []"
  let ?d = "dropWhile isWhiteSpace (rev (dropWhile isWhiteSpace s))"
  from ne have "?d \<noteq> []" by (simp add: trim_def)
  then have "\<not> isWhiteSpace (hd ?d)" by (rule hd_dropWhile)
  moreover have "last (trim s) = hd ?d" using \<open>?d \<noteq> []\<close> by (simp add: trim_def last_rev)
  ultimately show ?thesis by simp
qed

















lemma kept_last: "trim s \<noteq> [] \<Longrightarrow> last (trim s) \<noteq> 0x20"
  using last_trim [of s] by (auto simp: isWhiteSpace_def)












section \<open>URL normalization and deduplication\<close>

subsection \<open>Deduplication\<close>

lemma dedup_loop_first_seen:
  "snd (dedup_loop lib us (seen, unique)) = unique @ first_seen (normalizeUrl lib) seen us"
  by (induction us arbitrary: seen unique) (simp_all add: Let_def)

lemma upt_Suc_shift: "[0..<Suc n] = 0 # map Suc [0..<n]"
  by (simp add: upt_conv_Cons map_Suc_upt del: upt_Suc)

lemma first_seen_positions:
  "first_seen key seen us =
     map (\<lambda>i. us ! i)
       (filter (\<lambda>i. key (us ! i) \<notin> seen \<and> (\<forall>j<i. key (us ! j) \<noteq> key (us ! i)))
          [0..<length us])"
proof (induction us arbitrary: seen)
  case Nil
  then show ?case by simp
next
  case (Cons u us)
  let ?P = "\<lambda>s i. key (us ! i) \<notin> s \<and> (\<forall>j<i. key (us ! j) \<noteq> key (us ! i))"
  let ?Q = "\<lambda>i. key ((u # us) ! i) \<notin> seen
                \<and> (\<forall>j<i. key ((u # us) ! j) \<noteq> key ((u # us) ! i))"
  have step: "?Q (Suc i) \<longleftrightarrow>
      key (us ! i) \<notin> seen \<and> key u \<noteq> key (us ! i) \<and> (\<forall>j<i. key (us ! j) \<noteq> key (us ! i))"
    for i
    by (auto simp: less_Suc_eq_0_disj)
  have split: "map (\<lambda>i. (u # us) ! i) (filter ?Q [0..<length (u # us)])
      = (if key u \<notin> seen then [u] else [])
        @ map (\<lambda>i. us ! i) (filter (\<lambda>i. ?Q (Suc i)) [0..<length us])"
    by (simp add: upt_Suc_shift filter_map comp_def del: upt_Suc)
  show ?case
  proof (cases "key u \<in> seen")
    case True
    have "?Q (Suc i) \<longleftrightarrow> ?P seen i" for i
      unfolding step using True by auto
    then have "filter (\<lambda>i. ?Q (Suc i)) [0..<length us] = filter (?P seen) [0..<length us]"
      by (simp only:)
    with True show ?thesis unfolding split by (simp add: Cons.IH)
  next
    case False
    have "?Q (Suc i) \<longleftrightarrow> ?P (insert (key u) seen) i" for i
      unfolding step by auto
    then have "filter (\<lambda>i. ?Q (Suc i)) [0..<length us]
               = filter (?P (insert (key u) seen)) [0..<length us]"
      by (simp only:)
    with False show ?thesis unfolding split by (simp add: Cons.IH)
  qed
qed

text \<open>
  C4. For every list of URL strings, \<open>deduplicateUrls\<close> returns, in the order of the
  input, exactly the URLs at the positions that no earlier position shares its
  \<open>normalizeUrl\<close> key with: for each distinct key the first URL with that key, in its
  original form, and nothing else.
\<close>

theorem deduplicateUrls_first_occurrences:
  "deduplicateUrls lib us =
     map (\<lambda>i. us ! i)
       (filter (\<lambda>i. \<forall>j<i. normalizeUrl lib (us ! j) \<noteq> normalizeUrl lib (us ! i))
          [0..<length us])"
  by (simp add: deduplicateUrls_def dedup_loop_first_seen first_seen_positions)

text \<open>
  \<open>https://WWW.Example.COM/Page/\<close> follows a URL with the same key and is dropped; the
  two unparseable strings are kept once each, in their original form.
\<close>

theorem deduplicateUrls_first_occurrences_witness:
  "map (\<lambda>i. [str ''https://example.com/Page'', str ''x'',
                str ''https://WWW.Example.COM/Page/'', str ''x'', str ''y''] ! i)
     (filter (\<lambda>i. \<forall>j<i.
          normalizeUrl example_urls
            ([str ''https://example.com/Page'', str ''x'',
              str ''https://WWW.Example.COM/Page/'', str ''x'', str ''y''] ! j)
          \<noteq> normalizeUrl example_urls
              ([str ''https://example.com/Page'', str ''x'',
                str ''https://WWW.Example.COM/Page/'', str ''x'', str ''y''] ! i))
        [0..<length [str ''https://example.com/Page'', str ''x'',
                     str ''https://WWW.Example.COM/Page/'', str ''x'', str ''y'']])
   = [str ''https://example.com/Page'', str ''x'', str ''y'']"
proof -
  have "deduplicateUrls example_urls
          [str ''https://example.com/Page'', str ''x'',
           str ''https://WWW.Example.COM/Page/'', str ''x'', str ''y'']
        = [str ''https://example.com/Page'', str ''x'', str ''y'']"
    by code_simp
  then show ?thesis
    by (simp only: deduplicateUrls_first_occurrences)
qed

subsection \<open>Unparseable input\<close>





subsection \<open>Trailing slashes\<close>

lemma strip_trailing_slashes_decompose:
  "\<exists>k. p = strip_trailing_slashes p @ replicate k 0x2F"
proof -
  let ?P = "\<lambda>c::16 word. c = 0x2F"
  have "rev p = takeWhile ?P (rev p) @ dropWhile ?P (rev p)" by simp
  then have "p = rev (dropWhile ?P (rev p)) @ rev (takeWhile ?P (rev p))"
    by (metis rev_append rev_rev_ident)
  moreover have "takeWhile ?P (rev p) = replicate (length (takeWhile ?P (rev p))) 0x2F"
    by (rule replicate_length_same [symmetric]) (auto dest: set_takeWhileD)
  ultimately have "p = strip_trailing_slashes p @ replicate (length (takeWhile ?P (rev p))) 0x2F"
    by (metis rev_replicate strip_trailing_slashes_def)
  then show ?thesis ..
qed

lemma strip_trailing_slashes_end: "\<not> suffix [0x2F] (strip_trailing_slashes p)"
proof
  let ?d = "dropWhile (\<lambda>c::16 word. c = 0x2F) (rev p)"
  assume "suffix [0x2F] (strip_trailing_slashes p)"
  then have "prefix [0x2F] ?d"
    by (metis rev.simps(1,2) append_Nil rev_rev_ident strip_trailing_slashes_def suffix_to_prefix)
  then have "?d \<noteq> [] \<and> hd ?d = 0x2F" by (cases ?d) auto
  then show False using hd_dropWhile [of "\<lambda>c. c = 0x2F" "rev p"] by simp
qed

text \<open>
  C6 (as amended). For every string that parses as a URL, \<open>normalizeUrl\<close> rebuilds it as
  protocol, \<open>//\<close>, host, path and query, where the path is the parsed path with all of
  its trailing \<open>/\<close> characters stripped, unless the parsed path is exactly \<open>/\<close>, which is
  preserved.
\<close>

theorem normalizeUrl_trailing_slashes:
  assumes "URL_parse lib u = Returns parsed"
  shows "normalizeUrl lib u
           = protocol parsed @ str ''//'' @ normalized_hostname lib parsed
               @ normalized_pathname parsed @ normalized_query lib parsed
         \<and> (pathname parsed = str ''/'' \<longrightarrow> normalized_pathname parsed = str ''/'')
         \<and> (pathname parsed \<noteq> str ''/'' \<longrightarrow>
               \<not> suffix (str ''/'') (normalized_pathname parsed)
               \<and> (\<exists>k. pathname parsed = normalized_pathname parsed @ replicate k 0x2F))"
proof (intro conjI impI)
  show "normalizeUrl lib u
           = protocol parsed @ str ''//'' @ normalized_hostname lib parsed
               @ normalized_pathname parsed @ normalized_query lib parsed"
    using assms by (simp add: normalizeUrl_def)
  show "normalized_pathname parsed = str ''/''" if "pathname parsed = str ''/''"
    using that by (simp add: normalized_pathname_def)
  have slash: "str ''/'' = [0x2F]" by (simp add: str_def)
  show "\<not> suffix (str ''/'') (normalized_pathname parsed)" if "pathname parsed \<noteq> str ''/''"
    using that strip_trailing_slashes_end [of "pathname parsed"]
    by (simp add: normalized_pathname_def Let_def slash)
  show "\<exists>k. pathname parsed = normalized_pathname parsed @ replicate k 0x2F"
    if "pathname parsed \<noteq> str ''/''"
  proof (cases "suffix (str ''/'') (pathname parsed)")
    case True
    with that show ?thesis
      using strip_trailing_slashes_decompose [of "pathname parsed"]
      by (simp add: normalized_pathname_def Let_def)
  next
    case False
    then have "pathname parsed = normalized_pathname parsed @ replicate 0 0x2F"
      by (simp add: normalized_pathname_def Let_def)
    then show ?thesis ..
  qed
qed

text \<open>The root path is preserved, and \<open>/Page/\<close> loses its slash.\<close>

theorem normalizeUrl_trailing_slashes_witness:
  "normalizeUrl example_urls (str ''https://example.com/'') = str ''https://example.com/''
   \<and> normalizeUrl example_urls (str ''https://WWW.Example.COM/Page/'')
       = str ''https://example.com/Page''"
proof -
  have root: "URL_parse example_urls (str ''https://example.com/'')
      = Returns \<lparr>protocol = str ''https:'', hostname = str ''example.com'',
                 pathname = str ''/'', searchParams = []\<rparr>"
    by code_simp
  have h: "normalized_hostname example_urls
             \<lparr>protocol = str ''https:'', hostname = str ''example.com'',
              pathname = str ''/'', searchParams = []\<rparr> = str ''example.com''"
    by code_simp
  have q: "normalized_query example_urls
             \<lparr>protocol = str ''https:'', hostname = str ''example.com'',
              pathname = str ''/'', searchParams = []\<rparr> = []"
    by code_simp
  have "normalizeUrl example_urls (str ''https://example.com/'')
        = str ''https:'' @ str ''//'' @ str ''example.com'' @ str ''/'' @ []"
    using normalizeUrl_trailing_slashes [OF root] h q by simp
  moreover have "str ''https:'' @ str ''//'' @ str ''example.com'' @ str ''/'' @ []
        = str ''https://example.com/''"
    by code_simp
  moreover have "normalizeUrl example_urls (str ''https://WWW.Example.COM/Page/'')
       = str ''https://example.com/Page''"
    by code_simp
  ultimately show ?thesis by simp
qed

text \<open>
  C6 as stated fails: the path \<open>/a//\<close> ends in two slashes; stripping exactly one leaves
  \<open>/a/\<close>, the code strips both.
\<close>

theorem normalizeUrl_one_slash_counterexample:
  "normalizeUrl example_urls (str ''https://example.com/a//'') = str ''https://example.com/a''
   \<and> strip_one_trailing_slash (str ''/a//'') = str ''/a/''
   \<and> normalized_pathname
         \<lparr>protocol = str ''https:'', hostname = str ''example.com'',
          pathname = str ''/a//'', searchParams = []\<rparr>
       \<noteq> strip_one_trailing_slash (str ''/a//'')"
  by code_simp

subsection \<open>Query parameters\<close>

text \<open>
  When the names that survive the filter are pairwise distinct, \<open>params.set\<close> only ever
  appends, and the loop keeps every surviving pair in order.
\<close>

lemma params_set_fresh:
  "name \<notin> fst ` set ps \<Longrightarrow> params_set name v ps = ps @ [(name, v)]"
  by (induction ps) auto

lemma filter_params_distinct_names:
  "distinct (map fst (acc @ without_tracking lib ps))
   \<Longrightarrow> filter_params lib ps acc = acc @ without_tracking lib ps"
proof (induction ps arbitrary: acc)
  case Nil
  then show ?case by (simp add: without_tracking_def)
next
  case (Cons p ps)
  obtain k v where p: "p = (k, v)" by (cases p)
  show ?case
  proof (cases "toLowerCase lib k \<in> TRACKING_PARAMS")
    case True
    with Cons p show ?thesis by (simp add: without_tracking_def)
  next
    case False
    with Cons.prems p have fresh: "k \<notin> fst ` set acc"
      by (auto simp: without_tracking_def)
    have "distinct (map fst ((acc @ [(k, v)]) @ without_tracking lib ps))"
      using Cons.prems p False by (simp add: without_tracking_def)
    from Cons.IH [OF this] False p fresh show ?thesis
      by (simp add: params_set_fresh without_tracking_def)
  qed
qed

text \<open>A tracking parameter is dropped and the parameter after it kept.\<close>

lemma normalizeUrl_drops_tracking_example:
  "normalizeUrl example_urls (str ''https://example.com/p?utm_source=x&id=1'')
     = str ''https://example.com/p?id=1''"
  by code_simp

text \<open>
  C2 at a URL that repeats a parameter name. \<open>params.set\<close> replaces the value of an
  existing pair, so of \<open>id=1&id=2\<close> only \<open>id=2\<close> is left, where the claim preserves
  both occurrences.
\<close>

theorem normalizeUrl_repeated_name:
  "normalizeUrl example_urls (str ''https://example.com/p?id=1&id=2'')
     = str ''https://example.com/p?id=2''
   \<and> filter_params example_urls [(str ''id'', str ''1''), (str ''id'', str ''2'')] []
     = [(str ''id'', str ''2'')]
   \<and> without_tracking example_urls [(str ''id'', str ''1''), (str ''id'', str ''2'')]
     = [(str ''id'', str ''1''), (str ''id'', str ''2'')]"
  by code_simp


section \<open>Title extraction\<close>

lemma truthy_Some: "truthy (Some s) \<longleftrightarrow> s \<noteq> []"
  by (simp add: truthy_def)

lemma truthy_None: "\<not> truthy None"
  by (simp add: truthy_def)

text \<open>
  C8. For every HTML string, \<open>extractTitle\<close> returns the first of the title element's
  text, the first \<open>h1\<close> element's text and the \<open>content\<close> attribute of the \<open>og:title\<close>
  meta element that is not empty after trimming, trimmed; an absent or empty-after-trim
  candidate falls through to the next. It returns \<open>null\<close>, and does not raise, when none
  is left or the document fails to parse.
\<close>

theorem extractTitle_priority:
  "extractTitle lib html =
     (case parseHTML lib html of
        Throws \<Rightarrow> None
      | Returns d \<Rightarrow> first_nonempty_trimmed (title_candidates d))"
proof (cases "parseHTML lib html")
  case Throws
  then show ?thesis by (simp add: extractTitle_def)
next
  case (Returns d)
  show ?thesis
  proof (cases "d (str ''title'')")
    case None
    then show ?thesis
      using Returns
      by (cases "d (str ''h1'')"; cases "d OG_TITLE_SELECTOR")
         (auto simp: extractTitle_def title_candidates_def first_nonempty_trimmed_def
            List.map_filter_simps truthy_Some truthy_None Let_def
            split: option.splits Option.bind_splits)
  next
    case (Some a)
    then show ?thesis
      using Returns
      by (cases "d (str ''h1'')"; cases "d OG_TITLE_SELECTOR")
         (auto simp: extractTitle_def title_candidates_def first_nonempty_trimmed_def
            List.map_filter_simps truthy_Some truthy_None Let_def
            split: option.splits Option.bind_splits)
  qed
qed

text \<open>
  The title wins over the \<open>h1\<close>; a title of spaces only falls through to the \<open>h1\<close>; the
  \<open>og:title\<close> content is the last resort; a page with none has no title.
\<close>

theorem extractTitle_priority_witness:
  "extractTitle (parsed_as (example_document (Some (str '' T '')) (Some (str ''H'')) None))
       (str ''<title> T </title><h1>H</h1>'') = Some (str ''T'')
   \<and> extractTitle (parsed_as (example_document (Some (str ''  '')) (Some (str ''H'')) None))
       (str ''<title>  </title><h1>H</h1>'') = Some (str ''H'')
   \<and> extractTitle (parsed_as (example_document None None (Some (str ''O''))))
       (str ''<meta property=og:title content=O>'') = Some (str ''O'')
   \<and> extractTitle (parsed_as (example_document None None None)) (str ''<p>none</p>'') = None"
proof -
  have "first_nonempty_trimmed
          (title_candidates (example_document (Some (str '' T '')) (Some (str ''H'')) None))
        = Some (str ''T'')"
    by code_simp
  moreover have "first_nonempty_trimmed
          (title_candidates (example_document (Some (str ''  '')) (Some (str ''H'')) None))
        = Some (str ''H'')"
    by code_simp
  moreover have "first_nonempty_trimmed
          (title_candidates (example_document None None (Some (str ''O''))))
        = Some (str ''O'')"
    by code_simp
  moreover have "first_nonempty_trimmed (title_candidates (example_document None None None))
        = None"
    by code_simp
  ultimately show ?thesis
    by (simp add: extractTitle_priority parsed_as_def)
qed


section \<open>Multi-query search\<close>

subsection \<open>The order of the requests\<close>


text \<open>
  What the schedule says about neighbours: the end of request \<open>n\<close> is directly followed by
  the start and the end of the delay and then by the start of request \<open>n + 1\<close>; and the
  schedule begins with the start of request \<open>0\<close>, with no delay before it.
\<close>

lemma upt_split_two:
  "Suc n < N \<Longrightarrow> [0..<N] = [0..<n] @ [n, Suc n] @ [Suc (Suc n)..<N]"
proof -
  assume a: "Suc n < N"
  then obtain k where N: "N = n + k" using less_imp_add_positive [of n N] by auto
  have "[0..<N] = [0..<n] @ [n..<N]" unfolding N by (rule upt_add_eq_append) simp
  also have "[n..<N] = n # Suc n # [Suc (Suc n)..<N]" using a by (simp add: upt_conv_Cons)
  finally show ?thesis by simp
qed

lemma schedule_adjacent:
  assumes "Suc n < length queries"
  shows "\<exists>before after. concat (map (query_events queries) [0..<length queries])
     = before @ [RequestEnd n (queries ! n), DelayStart 400, DelayEnd 400,
                 RequestStart (Suc n) (queries ! Suc n)] @ after"
proof -
  let ?f = "query_events queries"
  have "concat (map ?f [0..<length queries])
      = concat (map ?f [0..<n]) @ ?f n @ ?f (Suc n) @ concat (map ?f [Suc (Suc n)..<length queries])"
    by (simp add: upt_split_two [OF assms])
  also have "\<dots> = (concat (map ?f [0..<n])
               @ (if 0 < n then [DelayStart 400, DelayEnd 400] else [])
               @ [RequestStart n (queries ! n)])
        @ [RequestEnd n (queries ! n), DelayStart 400, DelayEnd 400,
           RequestStart (Suc n) (queries ! Suc n)]
        @ ([RequestEnd (Suc n) (queries ! Suc n)]
           @ concat (map ?f [Suc (Suc n)..<length queries]))"
    by (simp add: query_events_def)
  finally show ?thesis by blast
qed

lemma schedule_first:
  assumes "queries \<noteq> []"
  shows "\<exists>after. concat (map (query_events queries) [0..<length queries])
     = RequestStart 0 (queries ! 0) # after"
proof -
  from assms have "[0..<length queries] = 0 # [Suc 0..<length queries]"
    by (simp add: upt_conv_Cons)
  then show ?thesis by (simp add: query_events_def)
qed



subsection \<open>The metadata of the surviving URLs\<close>

lemma map_of_fold_update:
  "map_of (fold (\<lambda>(k, v). AList.update k v) (map (\<lambda>u. (u, f u)) us) al) k
   = (if k \<in> set us then Some (f k) else map_of al k)"
  by (induction us arbitrary: al) (auto simp: update_conv')

lemma map_of_fromEntries:
  "map_of (fromEntries (map (\<lambda>u. (u, f u)) us)) k = (if k \<in> set us then Some (f k) else None)"
  by (simp add: fromEntries_def map_of_fold_update)

lemma keys_fromEntries:
  "set (map fst (fromEntries (map (\<lambda>u. (u, f u)) us))) = set us"
proof -
  have "dom (map_of (fromEntries (map (\<lambda>u. (u, f u)) us))) = set us"
    by (auto simp: map_of_fromEntries dom_def)
  then show ?thesis by (simp add: dom_map_of_conv_image_fst)
qed

lemma multiSearch_result:
  assumes "collected search queries resultsPerQuery
           = (urlToSnippet, urlToTitle, queryToUrls, allUrls)"
    and "queries \<noteq> []"
  shows "snd (multiSearch lib search queries resultsPerQuery)
         = \<lparr>urls = deduplicateUrls lib allUrls,
            snippets = fromEntries (map (\<lambda>u. (u, lookup_or_empty urlToSnippet u))
                                      (deduplicateUrls lib allUrls)),
            search_titles = fromEntries (map (\<lambda>u. (u, lookup_or_empty urlToTitle u))
                                           (deduplicateUrls lib allUrls)),
            queryResults = queryToUrls\<rparr>"
proof -
  obtain log allResults where loop:
    "search_loop search queries resultsPerQuery 0 ([], []) = (log, allResults)"
    by (cases "search_loop search queries resultsPerQuery 0 ([], [])")
  with assms(1) have "collect_queries (zip queries allResults) ([], [], [], [])
      = (urlToSnippet, urlToTitle, queryToUrls, allUrls)"
    by (simp add: collected_def)
  with loop assms(2) show ?thesis
    by (simp add: multiSearch_def Let_def)
qed

lemma PROTO_inherited: "PROTO \<in> OBJECT_PROTOTYPE_NAMES"
  by (simp add: PROTO_def OBJECT_PROTOTYPE_NAMES_def)

lemma assign_fresh: "\<not> has_property obj k \<Longrightarrow> assign k v obj = AList.update k v obj"
  using PROTO_inherited by (auto simp: has_property_def assign_def)

lemma find_append:
  "List.find P (xs @ ys) = (case List.find P xs of Some x \<Rightarrow> Some x | None \<Rightarrow> List.find P ys)"
  by (induction xs) auto

lemma search_loop_results:
  "snd (search_loop search queries resultsPerQuery i (log, allResults))
   = allResults @ map (\<lambda>j. search j (queries ! j) resultsPerQuery) [i..<length queries]"
proof (induction search queries resultsPerQuery i "(log, allResults)"
    arbitrary: log allResults rule: search_loop.induct)
  case (1 search queries resultsPerQuery i log allResults)
  show ?case
  proof (cases "i < length queries")
    case True
    then have "[i..<length queries] = i # [Suc i..<length queries]"
      by (simp add: upt_conv_Cons)
    with True show ?thesis
      using "1" [OF True refl refl refl refl]
      by (subst search_loop.simps) (simp add: Let_def)
  next
    case False
    then show ?thesis by (subst search_loop.simps) simp
  qed
qed

text \<open>
  The inner loop: a URL that is not yet a property of \<open>urlToSnippet\<close>, own or inherited,
  gets the snippet and the title of the first result that has it; every non-empty URL is
  appended to \<open>allUrls\<close>.
\<close>

lemma collect_results_state:
  assumes "collect_results hits (S, T, qU, aU) = (S', T', qU', aU')"
    and "set (map fst T) = set (map fst S)"
  shows "aU' = aU @ filter (\<lambda>u. u \<noteq> []) (map url hits)
       \<and> set (map fst T') = set (map fst S')
       \<and> map_of S' u
         = (case map_of S u of
              Some s \<Rightarrow> Some s
            | None \<Rightarrow> if u \<in> OBJECT_PROTOTYPE_NAMES \<or> u = [] then None
                      else map_option snippet (List.find (\<lambda>h. url h = u) hits))
       \<and> map_of T' u
         = (case map_of T u of
              Some s \<Rightarrow> Some s
            | None \<Rightarrow> if u \<in> OBJECT_PROTOTYPE_NAMES \<or> u = [] then None
                      else map_option hit_title (List.find (\<lambda>h. url h = u) hits))"
  using assms
proof (induction hits arbitrary: S T qU aU)
  case Nil
  then show ?case by (simp split: option.splits)
next
  case (Cons h hits)
  show ?case
  proof (cases "url h = []")
    case True
    with Cons.prems have "collect_results hits (S, T, qU, aU) = (S', T', qU', aU')" by simp
    from Cons.IH [OF this Cons.prems(2)] True show ?thesis
      by (auto split: option.splits)
  next
    case False
    show ?thesis
    proof (cases "has_property S (url h)")
      case True
      with False Cons.prems
      have "collect_results hits (S, T, qU @ [url h], aU @ [url h]) = (S', T', qU', aU')"
        by simp
      note ih = Cons.IH [OF this Cons.prems(2)]
      have own: "url h \<notin> OBJECT_PROTOTYPE_NAMES \<Longrightarrow> map_of S (url h) \<noteq> None"
        using True by (auto simp: has_property_def map_of_eq_None_iff)
      have own': "url h \<notin> OBJECT_PROTOTYPE_NAMES \<Longrightarrow> map_of T (url h) \<noteq> None"
        using True Cons.prems(2) by (auto simp: has_property_def map_of_eq_None_iff)
      show ?thesis
        using ih False own own' by (auto split: option.splits)
    next
      case fresh: False
      then have none: "map_of S (url h) = None" "url h \<notin> OBJECT_PROTOTYPE_NAMES"
        by (auto simp: has_property_def map_of_eq_None_iff)
      from fresh Cons.prems(2) have fresh': "\<not> has_property T (url h)"
        by (simp add: has_property_def)
      with none Cons.prems(2) have none': "map_of T (url h) = None"
        by (auto simp: has_property_def map_of_eq_None_iff)
      let ?S = "AList.update (url h) (snippet h) S"
      let ?T = "AList.update (url h) (hit_title h) T"
      from False fresh fresh' Cons.prems
      have step: "collect_results hits (?S, ?T, qU @ [url h], aU @ [url h]) = (S', T', qU', aU')"
        by (simp add: assign_fresh)
      have keys: "set (map fst ?T) = set (map fst ?S)"
        using Cons.prems(2) by (simp add: dom_update)
      note ih = Cons.IH [OF step keys]
      show ?thesis
        using ih False none none' by (auto simp: update_conv' split: option.splits)
    qed
  qed
qed

text \<open>The outer loop does the same over the results of all the queries.\<close>

lemma collect_queries_state:
  assumes "collect_queries qs (S, T, Q, aU) = (S', T', Q', aU')"
    and "set (map fst T) = set (map fst S)"
  shows "aU' = aU @ filter (\<lambda>u. u \<noteq> []) (map url (concat (map snd qs)))
       \<and> map_of S' u
         = (case map_of S u of
              Some s \<Rightarrow> Some s
            | None \<Rightarrow> if u \<in> OBJECT_PROTOTYPE_NAMES \<or> u = [] then None
                      else map_option snippet (List.find (\<lambda>h. url h = u) (concat (map snd qs))))
       \<and> map_of T' u
         = (case map_of T u of
              Some s \<Rightarrow> Some s
            | None \<Rightarrow> if u \<in> OBJECT_PROTOTYPE_NAMES \<or> u = [] then None
                      else map_option hit_title
                             (List.find (\<lambda>h. url h = u) (concat (map snd qs))))"
  using assms
proof (induction qs arbitrary: S T Q aU)
  case Nil
  then show ?case by (simp split: option.splits)
next
  case (Cons q qs)
  obtain query hits where q: "q = (query, hits)" by (cases q)
  obtain S1 T1 qU1 aU1 where inner: "collect_results hits (S, T, [], aU) = (S1, T1, qU1, aU1)"
    by (cases "collect_results hits (S, T, [], aU)") auto
  note st = collect_results_state [OF inner Cons.prems(2), of u]
  from Cons.prems(1) q inner
  have "collect_queries qs (S1, T1, assign query qU1 Q, aU1) = (S', T', Q', aU')"
    by simp
  from Cons.IH [OF this] st have ih:
    "aU' = aU1 @ filter (\<lambda>u. u \<noteq> []) (map url (concat (map snd qs)))
       \<and> map_of S' u
         = (case map_of S1 u of
              Some s \<Rightarrow> Some s
            | None \<Rightarrow> if u \<in> OBJECT_PROTOTYPE_NAMES \<or> u = [] then None
                      else map_option snippet (List.find (\<lambda>h. url h = u) (concat (map snd qs))))
       \<and> map_of T' u
         = (case map_of T1 u of
              Some s \<Rightarrow> Some s
            | None \<Rightarrow> if u \<in> OBJECT_PROTOTYPE_NAMES \<or> u = [] then None
                      else map_option hit_title
                             (List.find (\<lambda>h. url h = u) (concat (map snd qs))))"
    by blast
  show ?case
    using ih st q by (auto simp: find_append split: option.splits)
qed

lemma collected_state:
  assumes "collected search queries resultsPerQuery = (S, T, Q, aU)"
  shows "aU = filter (\<lambda>u. u \<noteq> []) (map url (all_hits search queries resultsPerQuery))
       \<and> map_of S u
         = (if u \<in> OBJECT_PROTOTYPE_NAMES \<or> u = [] then None
            else map_option snippet
                   (List.find (\<lambda>h. url h = u) (all_hits search queries resultsPerQuery)))
       \<and> map_of T u
         = (if u \<in> OBJECT_PROTOTYPE_NAMES \<or> u = [] then None
            else map_option hit_title
                   (List.find (\<lambda>h. url h = u) (all_hits search queries resultsPerQuery)))"
proof -
  let ?rs = "map (\<lambda>j. search j (queries ! j) resultsPerQuery) [0..<length queries]"
  have rs: "snd (search_loop search queries resultsPerQuery 0 ([], [])) = ?rs"
    by (simp add: search_loop_results)
  have "map snd (zip queries ?rs) = ?rs" by (simp add: map_snd_zip)
  then have hits: "concat (map snd (zip queries ?rs)) = all_hits search queries resultsPerQuery"
    by (simp add: all_hits_def)
  from assms rs have "collect_queries (zip queries ?rs) ([], [], [], []) = (S, T, Q, aU)"
    by (simp add: collected_def)
  from collect_queries_state [OF this, of u] show ?thesis
    unfolding hits by simp
qed

lemma set_first_seen: "set (first_seen key seen us) \<subseteq> set us"
  by (induction us arbitrary: seen) auto

lemma set_deduplicateUrls: "set (deduplicateUrls lib us) \<subseteq> set us"
  by (simp add: deduplicateUrls_def dedup_loop_first_seen set_first_seen)

text \<open>
  What \<open>multiSearch\<close> returns as metadata, for every list of queries and whatever each
  search returns. The keys of \<open>snippets\<close> and of \<open>titles\<close> are exactly the entries of the
  deduplicated \<open>urls\<close> list. Each of these URLs is the URL of a search result; its value
  is the snippet (title) of the first result with that URL, unless the URL is the name of a
  property of \<open>Object.prototype\<close>: such a URL is never recorded, and its value is the
  inherited property.
\<close>

lemma multiSearch_metadata:
  "set (map fst (snippets (snd (multiSearch lib search queries resultsPerQuery))))
     = set (urls (snd (multiSearch lib search queries resultsPerQuery)))
   \<and> set (map fst (search_titles (snd (multiSearch lib search queries resultsPerQuery))))
     = set (urls (snd (multiSearch lib search queries resultsPerQuery)))
   \<and> (\<forall>u \<in> set (urls (snd (multiSearch lib search queries resultsPerQuery))).
        \<exists>h. List.find (\<lambda>h. url h = u) (all_hits search queries resultsPerQuery) = Some h
          \<and> map_of (snippets (snd (multiSearch lib search queries resultsPerQuery))) u
            = Some (if u \<in> OBJECT_PROTOTYPE_NAMES then Inherited u else JSString (snippet h))
          \<and> map_of (search_titles (snd (multiSearch lib search queries resultsPerQuery))) u
            = Some (if u \<in> OBJECT_PROTOTYPE_NAMES then Inherited u
                    else JSString (hit_title h)))"
proof (cases "queries = []")
  case True
  then show ?thesis by (simp add: multiSearch_def)
next
  case False
  obtain S T Q aU where c: "collected search queries resultsPerQuery = (S, T, Q, aU)"
    by (cases "collected search queries resultsPerQuery") auto
  let ?hits = "all_hits search queries resultsPerQuery"
  let ?r = "snd (multiSearch lib search queries resultsPerQuery)"
  note r = multiSearch_result [OF c False, of lib]
  have aU: "aU = filter (\<lambda>u. u \<noteq> []) (map url ?hits)"
    using collected_state [OF c] by blast
  have vals: "\<exists>h. List.find (\<lambda>h. url h = u) ?hits = Some h
          \<and> map_of (snippets ?r) u
            = Some (if u \<in> OBJECT_PROTOTYPE_NAMES then Inherited u else JSString (snippet h))
          \<and> map_of (search_titles ?r) u
            = Some (if u \<in> OBJECT_PROTOTYPE_NAMES then Inherited u else JSString (hit_title h))"
    if u: "u \<in> set (urls ?r)" for u
  proof -
    from u have dedup: "u \<in> set (deduplicateUrls lib aU)" by (simp add: r)
    with set_deduplicateUrls [of lib aU] have "u \<in> set aU" by blast
    then have ne: "u \<noteq> []" and "u \<in> url ` set ?hits" by (auto simp: aU)
    then have "List.find (\<lambda>h. url h = u) ?hits \<noteq> None"
      by (auto simp: find_None_iff)
    then obtain h where h: "List.find (\<lambda>h. url h = u) ?hits = Some h" by blast
    from collected_state [OF c, of u] ne h
    have S: "map_of S u = (if u \<in> OBJECT_PROTOTYPE_NAMES then None else Some (snippet h))"
      and T: "map_of T u = (if u \<in> OBJECT_PROTOTYPE_NAMES then None else Some (hit_title h))"
      by simp_all
    have "map_of (snippets ?r) u = Some (lookup_or_empty S u)"
      and "map_of (search_titles ?r) u = Some (lookup_or_empty T u)"
      using dedup by (simp_all add: r map_of_fromEntries)
    with S T h show ?thesis by (auto simp: lookup_or_empty_def)
  qed
  have "set (map fst (snippets ?r)) = set (urls ?r)"
    and "set (map fst (search_titles ?r)) = set (urls ?r)"
    by (simp_all add: r keys_fromEntries del: set_map)
  with vals show ?thesis by blast
qed

text \<open>
  Two queries return the same page under two spellings; the first spelling survives with the
  title of its first occurrence and its empty snippet.
\<close>

lemma multiSearch_metadata_example:
  "snd (multiSearch example_urls example_search [str ''q1'', str ''q2''] 5)
     = \<lparr>urls = [str ''https://example.com/Page'', str ''x''],
        snippets = [(str ''https://example.com/Page'', JSString []),
                    (str ''x'', JSString (str ''S3''))],
        search_titles = [(str ''https://example.com/Page'', JSString (str ''T1'')),
                         (str ''x'', JSString (str ''T3''))],
        queryResults = [(str ''q1'', [str ''https://example.com/Page'']),
                        (str ''q2'', [str ''https://WWW.Example.COM/Page/'', str ''x''])]\<rparr>"
  by code_simp

text \<open>
  C10. The claim gives the empty string to a surviving URL whose snippet or title was never
  recorded, and the records are declared as records of strings. The code tests
  \<open>result.url in urlToSnippet\<close> on a plain object, and \<open>in\<close> also finds the properties
  inherited from \<open>Object.prototype\<close>. For a search result with the URL \<open>toString\<close> the
  test holds before anything was recorded: the snippet \<open>S\<close> and the title \<open>T\<close> of the
  result are not recorded, the URL survives deduplication, and the reads
  \<open>urlToSnippet[url] || ""\<close> and \<open>urlToTitle[url] || ""\<close> give the inherited function
  instead of the empty string.
\<close>

theorem multiSearch_inherited_name:
  "collected toString_search [str ''q''] 5
     = ([], [], [(str ''q'', [str ''toString''])], [str ''toString''])
   \<and> snd (multiSearch example_urls toString_search [str ''q''] 5)
     = \<lparr>urls = [str ''toString''],
        snippets = [(str ''toString'', Inherited (str ''toString''))],
        search_titles = [(str ''toString'', Inherited (str ''toString''))],
        queryResults = [(str ''q'', [str ''toString''])]\<rparr>
   \<and> map_of (snippets (snd (multiSearch example_urls toString_search [str ''q''] 5)))
        (str ''toString'') \<noteq> Some (JSString [])"
  by code_simp

section \<open>Parallel page fetch\<close>

lemma assign_not_PROTO: "k \<noteq> PROTO \<Longrightarrow> assign k v obj = AList.update k v obj"
  by (simp add: assign_def)

lemma keys_set_if_truthy:
  "u \<noteq> PROTO \<Longrightarrow> set (map fst (set_if_truthy u v obj))
   = (if truthy v then insert u (set (map fst obj)) else set (map fst obj))"
  by (cases v) (auto simp: set_if_truthy_def truthy_def dom_update assign_not_PROTO)

lemma distinct_set_if_truthy:
  "distinct (map fst obj) \<Longrightarrow> distinct (map fst (set_if_truthy u v obj))"
  by (cases v) (auto simp: set_if_truthy_def assign_def distinct_update)

lemma organize_keys:
  assumes "organize ps (c, t, e) = (c', t', e')"
    and "PROTO \<notin> fst ` set ps"
  shows "set (map fst c')
         = set (map fst c) \<union> {u. \<exists>r. (u, r) \<in> set ps \<and> \<not> truthy (error r) \<and> truthy (content r)}
       \<and> set (map fst e') = set (map fst e) \<union> {u. \<exists>r. (u, r) \<in> set ps \<and> truthy (error r)}"
  using assms
proof (induction ps arbitrary: c t e)
  case Nil
  then show ?case by simp
next
  case (Cons p ps)
  obtain u r where p: "p = (u, r)" by (cases p)
  from Cons.prems(2) p have u: "u \<noteq> PROTO" and rest: "PROTO \<notin> fst ` set ps" by auto
  show ?case
  proof (cases "truthy (error r)")
    case True
    with Cons.prems p have "organize ps (c, t, set_if_truthy u (error r) e) = (c', t', e')" by simp
    from Cons.IH [OF this rest] True p u show ?thesis
      by (auto simp: keys_set_if_truthy simp del: set_map)
  next
    case False
    with Cons.prems p have "organize ps (set_if_truthy u (content r) c, set_if_truthy u (title r) t, e)
        = (c', t', e')"
      by simp
    from Cons.IH [OF this rest] False p u show ?thesis
      by (auto simp: keys_set_if_truthy simp del: set_map)
  qed
qed

lemma organize_distinct:
  assumes "organize ps (c, t, e) = (c', t', e')"
    and "distinct (map fst c)" and "distinct (map fst e)"
  shows "distinct (map fst c') \<and> distinct (map fst e')"
  using assms
proof (induction ps arbitrary: c t e)
  case Nil
  then show ?case by simp
next
  case (Cons p ps)
  obtain u r where p: "p = (u, r)" by (cases p)
  show ?case
  proof (cases "truthy (error r)")
    case True
    with Cons.prems p have "organize ps (c, t, set_if_truthy u (error r) e) = (c', t', e')"
      by simp
    from Cons.IH [OF this] Cons.prems show ?thesis
      by (simp add: distinct_set_if_truthy)
  next
    case False
    with Cons.prems p
    have "organize ps (set_if_truthy u (content r) c, set_if_truthy u (title r) t, e)
          = (c', t', e')"
      by simp
    from Cons.IH [OF this] Cons.prems show ?thesis
      by (simp add: distinct_set_if_truthy)
  qed
qed

text \<open>
  C5 (as amended). For the empty URL list all three records are empty and both counts are
  zero. For every list of pairwise distinct URLs, none of them the string \<open>__proto__\<close>, and
  every combination of fetch outcomes in which each URL ends with a non-empty error message
  or with non-empty extracted content, \<open>successCount + errorCount\<close> equals the number of
  input URLs and the key sets of \<open>contents\<close> and \<open>errors\<close> partition the set of input
  URLs.
\<close>

theorem fetchPages_partition:
  "fetchPages lib net [] maxChars timeout
     = \<lparr>contents = [], titles = [], errors = [], successCount = 0, errorCount = 0\<rparr>
   \<and> (distinct us \<and> PROTO \<notin> set us
       \<and> (\<forall>i<length us. recorded (fetchSinglePage lib (net i) (us ! i) timeout maxChars))
       \<longrightarrow> successCount (fetchPages lib net us maxChars timeout)
             + errorCount (fetchPages lib net us maxChars timeout) = length us
           \<and> set (map fst (contents (fetchPages lib net us maxChars timeout)))
             \<union> set (map fst (errors (fetchPages lib net us maxChars timeout))) = set us
           \<and> set (map fst (contents (fetchPages lib net us maxChars timeout)))
             \<inter> set (map fst (errors (fetchPages lib net us maxChars timeout))) = {})"
proof (intro conjI impI)
  show "fetchPages lib net [] maxChars timeout
     = \<lparr>contents = [], titles = [], errors = [], successCount = 0, errorCount = 0\<rparr>"
    by (simp add: fetchPages_def)
next
  assume hyp: "distinct us \<and> PROTO \<notin> set us
       \<and> (\<forall>i<length us. recorded (fetchSinglePage lib (net i) (us ! i) timeout maxChars))"
  define f where "f = (\<lambda>i. fetchSinglePage lib (net i) (us ! i) timeout maxChars)"
  define ps where "ps = zip us (map f [0..<length us])"
  obtain c t e where org: "organize ps ([], [], []) = (c, t, e)"
    by (cases "organize ps ([], [], [])") auto
  have result: "fetchPages lib net us maxChars timeout
      = \<lparr>contents = c, titles = t, errors = e,
         successCount = length c, errorCount = length e\<rparr>"
  proof (cases "us = []")
    case True
    with org show ?thesis by (simp add: fetchPages_def ps_def)
  next
    case False
    with org show ?thesis by (simp add: fetchPages_def ps_def f_def Let_def)
  qed
  have mem: "(u, r) \<in> set ps \<longleftrightarrow> (\<exists>i<length us. u = us ! i \<and> r = f i)" for u r
    by (auto simp: ps_def in_set_zip)
  have "fst ` set ps \<subseteq> set us" by (auto simp: ps_def dest: set_zip_leftD)
  with hyp have noproto: "PROTO \<notin> fst ` set ps" by blast
  note keys = organize_keys [OF org noproto]
  have kc: "set (map fst c) = {u. \<exists>i<length us. u = us ! i \<and> \<not> truthy (error (f i)) \<and> truthy (content (f i))}"
    using keys by (auto simp: mem)
  have ke: "set (map fst e) = {u. \<exists>i<length us. u = us ! i \<and> truthy (error (f i))}"
    using keys by (auto simp: mem)
  have dist: "distinct (map fst c) \<and> distinct (map fst e)"
    using organize_distinct [OF org] by simp
  have rec: "\<And>i. i < length us \<Longrightarrow> truthy (error (f i)) \<or> truthy (content (f i))"
    using hyp by (simp add: f_def recorded_def)
  have union: "set (map fst c) \<union> set (map fst e) = set us"
  proof
    show "set (map fst c) \<union> set (map fst e) \<subseteq> set us"
      unfolding kc ke by auto
    show "set us \<subseteq> set (map fst c) \<union> set (map fst e)"
    proof
      fix u assume "u \<in> set us"
      then obtain i where i: "i < length us" "u = us ! i" by (auto simp: in_set_conv_nth)
      with rec [of i] show "u \<in> set (map fst c) \<union> set (map fst e)"
        unfolding kc ke by blast
    qed
  qed
  have inter: "set (map fst c) \<inter> set (map fst e) = {}"
  proof (rule ccontr)
    assume "set (map fst c) \<inter> set (map fst e) \<noteq> {}"
    then obtain u where "u \<in> set (map fst c)" and "u \<in> set (map fst e)" by blast
    then obtain i j where i: "i < length us" "u = us ! i" "\<not> truthy (error (f i))"
      and j: "j < length us" "u = us ! j" "truthy (error (f j))"
      unfolding kc ke by blast
    with hyp have "i = j" by (simp add: nth_eq_iff_index_eq)
    with i j show False by simp
  qed
  have "length c + length e = card (set (map fst c)) + card (set (map fst e))"
    using dist by (metis distinct_card length_map)
  also have "\<dots> = card (set (map fst c) \<union> set (map fst e))"
    using inter by (simp add: card_Un_disjoint)
  also have "\<dots> = length us"
    using hyp by (simp only: union distinct_card)
  finally have count: "length c + length e = length us" .
  show "successCount (fetchPages lib net us maxChars timeout)
             + errorCount (fetchPages lib net us maxChars timeout) = length us"
    by (simp add: result count)
  show "set (map fst (contents (fetchPages lib net us maxChars timeout)))
             \<union> set (map fst (errors (fetchPages lib net us maxChars timeout))) = set us"
    using union by (simp add: result)
  show "set (map fst (contents (fetchPages lib net us maxChars timeout)))
             \<inter> set (map fst (errors (fetchPages lib net us maxChars timeout))) = {}"
    using inter by (simp add: result)
qed

text \<open>
  One page that extracts to \<open>Hi\<close> and one 404: one success, one error, and the two
  records share the two URLs between them.
\<close>

theorem fetchPages_partition_witness:
  "successCount (fetchPages (body_only (str ''Hi'')) (page_then_404 (str ''<p>Hi</p>''))
                   [str ''https://good.example.com'', str ''https://bad.example.com''] 15000 30)
     + errorCount (fetchPages (body_only (str ''Hi'')) (page_then_404 (str ''<p>Hi</p>''))
                   [str ''https://good.example.com'', str ''https://bad.example.com''] 15000 30)
     = 2
   \<and> fetchPages (body_only (str ''Hi'')) (page_then_404 (str ''<p>Hi</p>''))
       [str ''https://good.example.com'', str ''https://bad.example.com''] 15000 30
     = \<lparr>contents = [(str ''https://good.example.com'', str ''Hi'')], titles = [],
        errors = [(str ''https://bad.example.com'', str ''HTTP 404'')],
        successCount = 1, errorCount = 1\<rparr>"
proof -
  let ?lib = "body_only (str ''Hi'')"
  let ?net = "page_then_404 (str ''<p>Hi</p>'')"
  let ?us = "[str ''https://good.example.com'', str ''https://bad.example.com'']"
  have d: "distinct ?us \<and> PROTO \<notin> set ?us" by code_simp
  have r0: "recorded (fetchSinglePage ?lib (?net 0) (str ''https://good.example.com'') 30 15000)"
    by code_simp
  have r1: "recorded (fetchSinglePage ?lib (?net (Suc 0)) (str ''https://bad.example.com'') 30 15000)"
    by code_simp
  have every: "\<forall>i<length ?us. recorded (fetchSinglePage ?lib (?net i) (?us ! i) 30 15000)"
    using r0 r1 by (auto simp: less_Suc_eq)
  have "successCount (fetchPages ?lib ?net ?us 15000 30)
        + errorCount (fetchPages ?lib ?net ?us 15000 30) = length ?us"
    using fetchPages_partition [of ?lib ?net 15000 30 ?us] d every by blast
  moreover have "fetchPages ?lib ?net ?us 15000 30
     = \<lparr>contents = [(str ''https://good.example.com'', str ''Hi'')], titles = [],
        errors = [(str ''https://bad.example.com'', str ''HTTP 404'')],
        successCount = 1, errorCount = 1\<rparr>"
    by code_simp
  ultimately show ?thesis by simp
qed

text \<open>
  C5 as stated fails. A page with an empty body is fetched without error, but its empty
  content is not stored (\<open>if (result.content)\<close>): the URL is in neither record and both
  counts are zero. And a URL given twice is one key: two successful fetches count once.
  Besides, the string \<open>__proto__\<close>, which \<open>fetch\<close> rejects as a URL, leaves no key:
  \<open>errors[url] = result.error\<close> runs the setter of \<open>Object.prototype\<close>.
\<close>

theorem fetchPages_counterexample:
  "successCount (fetchPages (body_only []) (\<lambda>i u. html_page [])
                   [str ''https://empty.example.com''] 15000 30)
     + errorCount (fetchPages (body_only []) (\<lambda>i u. html_page [])
                   [str ''https://empty.example.com''] 15000 30)
     \<noteq> length [str ''https://empty.example.com'']
   \<and> successCount (fetchPages (body_only (str ''Hi'')) (\<lambda>i u. html_page (str ''<p>Hi</p>''))
                   [str ''https://example.com'', str ''https://example.com''] 15000 30)
     + errorCount (fetchPages (body_only (str ''Hi'')) (\<lambda>i u. html_page (str ''<p>Hi</p>''))
                   [str ''https://example.com'', str ''https://example.com''] 15000 30)
     \<noteq> length [str ''https://example.com'', str ''https://example.com'']
   \<and> fetchPages (body_only [])
       (\<lambda>i u. Rejected (OtherError (str ''Failed to parse URL from __proto__'')))
       [str ''__proto__''] 15000 30
     = \<lparr>contents = [], titles = [], errors = [], successCount = 0, errorCount = 0\<rparr>"
  by code_simp

end
